theory Spec2Isabelle
  imports Main "HOL-Library.Log_Nat" "HOL-Library.Signed_Division"
begin

section \<open>Numbers of the engine\<close>

text \<open>
  The engine computes in C++ \<^verbatim>\<open>float\<close> (IEEE binary32), \<^verbatim>\<open>double\<close> (binary64) and
  \<^verbatim>\<open>int\<close>. A finite floating-point value is a rational number, and every arithmetic
  operation of the source returns the exact result rounded to the nearest value of the
  result type, ties to the even significand. The model writes each operation of the
  source as the exact operation on \<^typ>\<open>rat\<close> followed by the rounding of its C++ result
  type, so \<^verbatim>\<open>a + b*0.5f\<close> on floats is \<open>f32 (a + f32 (b * (1/2)))\<close>, and a float
  updated with a double operand, \<^verbatim>\<open>vy += g * dt\<close>, is \<open>f32 (f64 (vy + f64 (g * dt)))\<close>.
  Subnormal results are rounded on the fixed grid of the smallest exponent. Infinities
  and NaN are not values of the model: the exponent is unbounded upwards. Each operation
  is rounded to its own type (no wider intermediate precision, no fused multiply-add),
  and \<^verbatim>\<open>fabs\<close> on a float is the float overload of C++.
\<close>

definition pow2 :: "int \<Rightarrow> rat" where
  "pow2 e = (if 0 \<le> e then 2 ^ nat e else 1 / 2 ^ nat (- e))"

text \<open>The binary exponent of a positive rational: \<open>pow2 (ilog2 x) \<le> x < pow2 (ilog2 x + 1)\<close>.\<close>

definition ilog2 :: "rat \<Rightarrow> int" where
  "ilog2 x = (if 1 \<le> x then bitlen \<lfloor>x\<rfloor> - 1 else - bitlen (\<lceil>1 / x\<rceil> - 1))"

text \<open>The nearest integer, a tie going to the even one.\<close>

definition half_even :: "rat \<Rightarrow> int" where
  "half_even q = (let f = \<lfloor>q\<rfloor>; r = q - of_int f in
     if r < 1 / 2 then f else if 1 / 2 < r then f + 1 else if even f then f else f + 1)"

text \<open>Rounding to \<open>p\<close> significant bits, with \<open>emin\<close> the exponent of the smallest subnormal.\<close>

definition round_to :: "nat \<Rightarrow> int \<Rightarrow> rat \<Rightarrow> rat" where
  "round_to p emin x = (if x = 0 then 0 else
     let e = max (ilog2 \<bar>x\<bar> - (int p - 1)) emin
     in of_int (half_even (x / pow2 e)) * pow2 e)"

definition f32 :: "rat \<Rightarrow> rat" where
  "f32 = round_to 24 (- 149)"

definition f64 :: "rat \<Rightarrow> rat" where
  "f64 = round_to 53 (- 1074)"

text \<open>
  C++ \<^verbatim>\<open>int\<close> is 32 bits wide and its overflow is undefined behaviour, as is a remainder
  by zero and a downcast to a class the object is not. The model gives each of them an
  error value, so that a function of the source that can run into one returns
  \<open>error + result\<close>.
\<close>

datatype error = SignedOverflow | DivisionByZero | BadDowncast

definition INT_MAX :: int where
  "INT_MAX = 2147483647"

definition INT_MIN :: int where
  "INT_MIN = - 2147483648"

definition int_add :: "int \<Rightarrow> int \<Rightarrow> error + int" where
  "int_add a b = (if a + b < INT_MIN \<or> INT_MAX < a + b then Inl SignedOverflow else Inr (a + b))"

text \<open>The \<^verbatim>\<open>%\<close> of C++: the remainder of the division that truncates towards zero.\<close>

definition int_rem :: "int \<Rightarrow> int \<Rightarrow> error + int" where
  "int_rem a b = (if b = 0 then Inl DivisionByZero
     else if a = INT_MIN \<and> b = - 1 then Inl SignedOverflow
     else Inr (a smod b))"

section \<open>Components and the entity store\<close>

text \<open>
  The component structs (lines 141--150). Field names carry the struct's prefix, since
  \<^verbatim>\<open>x\<close>, \<^verbatim>\<open>y\<close>, \<^verbatim>\<open>w\<close>, \<^verbatim>\<open>h\<close>, \<^verbatim>\<open>vx\<close>, \<^verbatim>\<open>vy\<close>, \<^verbatim>\<open>sx\<close>, \<^verbatim>\<open>sy\<close> are fields of several structs.
\<close>

record Transform =
  tr_x :: rat
  tr_y :: rat
  tr_rot :: rat
  tr_sx :: rat
  tr_sy :: rat

record Sprite =
  sp_tex :: string
  sp_sx :: int
  sp_sy :: int
  sp_sw :: int
  sp_sh :: int
  sp_centered :: bool
  sp_layer :: rat

record Animation =
  frameCount :: int
  frameTime :: rat
  loop :: bool
  current :: int
  timer :: rat

text \<open>
  The component stored under the name \<^verbatim>\<open>"sprite"\<close> is a \<^verbatim>\<open>Sprite\<close> or an
  \<^verbatim>\<open>AnimatedSprite\<close>, which extends \<^verbatim>\<open>Sprite\<close> by an \<^verbatim>\<open>Animation\<close>.
\<close>

datatype SpriteComp = PlainSprite Sprite | AnimatedSprite Sprite Animation

record Physics =
  ph_vx :: rat
  ph_vy :: rat
  ph_ax :: rat
  ph_ay :: rat
  ph_mass :: rat
  ph_gravity :: rat
  onGround :: bool

record Collider =
  col_w :: rat
  col_h :: rat
  col_offx :: rat
  col_offy :: rat
  isStatic :: bool

text \<open>
  \<^verbatim>\<open>World\<close> (lines 152--176) keeps the entity ids in creation order and, per entity, a
  table from component name to component. \<^verbatim>\<open>World::get<T>(id, name)\<close> returns the null
  pointer when the entity or the name is absent. Every caller in the source asks for the
  name \<^verbatim>\<open>"transform"\<close> as \<^verbatim>\<open>Transform\<close>, \<^verbatim>\<open>"physics"\<close> as \<^verbatim>\<open>Physics\<close>, \<^verbatim>\<open>"collider"\<close> as
  \<^verbatim>\<open>Collider\<close> and \<^verbatim>\<open>"sprite"\<close> as \<^verbatim>\<open>Sprite\<close> or \<^verbatim>\<open>AnimatedSprite\<close>, so the model keeps one
  partial map per name; \<open>None\<close> is the null pointer. Each entity owns its components:
  no component object is added to two entities.
\<close>

record World =
  entities :: "int list"
  transforms :: "int \<rightharpoonup> Transform"
  sprites :: "int \<rightharpoonup> SpriteComp"
  physics :: "int \<rightharpoonup> Physics"
  colliders :: "int \<rightharpoonup> Collider"

text \<open>
  A write through a component pointer that was tested against null: the component is
  read from the store at the moment of the write, so two pointers to the same component
  see each other's writes.
\<close>

definition updTransform :: "int \<Rightarrow> (Transform \<Rightarrow> Transform) \<Rightarrow> World \<Rightarrow> World" where
  "updTransform i f wld = (case transforms wld i of
     None \<Rightarrow> wld
   | Some t \<Rightarrow> wld\<lparr>transforms := (transforms wld)(i \<mapsto> f t)\<rparr>)"

definition updPhysics :: "int \<Rightarrow> (Physics \<Rightarrow> Physics) \<Rightarrow> World \<Rightarrow> World" where
  "updPhysics i f wld = (case physics wld i of
     None \<Rightarrow> wld
   | Some p \<Rightarrow> wld\<lparr>physics := (physics wld)(i \<mapsto> f p)\<rparr>)"

section \<open>Input\<close>

text \<open>The scancodes of the SDL header that the source names.\<close>

datatype SDL_Scancode =
  SDL_SCANCODE_A | SDL_SCANCODE_D | SDL_SCANCODE_W | SDL_SCANCODE_SPACE
  | SDL_SCANCODE_LEFT | SDL_SCANCODE_RIGHT

text \<open>\<^verbatim>\<open>InputState::keys\<close> and \<^verbatim>\<open>InputState::down\<close> (lines 180, 195).\<close>

type_synonym InputState = "SDL_Scancode \<rightharpoonup> bool"

definition down :: "InputState \<Rightarrow> SDL_Scancode \<Rightarrow> bool" where
  "down keys s = (case keys s of None \<Rightarrow> False | Some b \<Rightarrow> b)"

text \<open>\<^verbatim>\<open>InputMap\<close> (lines 199--208): \<^verbatim>\<open>unordered_map<string,SDL_Scancode>\<close>.\<close>

type_synonym InputMap = "string \<rightharpoonup> SDL_Scancode"

definition bind :: "string \<Rightarrow> SDL_Scancode \<Rightarrow> InputMap \<Rightarrow> InputMap" where
  "bind action key m = m(action \<mapsto> key)"

definition actionDown :: "InputMap \<Rightarrow> InputState \<Rightarrow> string \<Rightarrow> bool" where
  "actionDown m st action = (case m action of None \<Rightarrow> False | Some key \<Rightarrow> down st key)"

text \<open>The five bindings of \<^verbatim>\<open>Engine::init\<close> (lines 281--283), in the order they are made.\<close>

definition initBindings :: InputMap where
  "initBindings =
     bind ''jump'' SDL_SCANCODE_SPACE
       (bind ''right'' SDL_SCANCODE_RIGHT (bind ''right'' SDL_SCANCODE_D
         (bind ''left'' SDL_SCANCODE_LEFT (bind ''left'' SDL_SCANCODE_A Map.empty))))"

section \<open>Particles\<close>

record Particle =
  pt_x :: rat
  pt_y :: rat
  pt_vx :: rat
  pt_vy :: rat
  pt_life :: rat
  pt_age :: rat

text \<open>
  What \<^verbatim>\<open>emit\<close> takes from the C library: \<^verbatim>\<open>cosf\<close>, \<^verbatim>\<open>sinf\<close>, the constant \<^verbatim>\<open>RAND_MAX\<close> and
  the results of \<^verbatim>\<open>rand()\<close>, which are never negative; \<open>rand_seq L k\<close> is what the
  \<open>k\<close>-th call returns.
\<close>

record LibC =
  cosf :: "rat \<Rightarrow> rat"
  sinf :: "rat \<Rightarrow> rat"
  RAND_MAX :: int
  rand_seq :: "nat \<Rightarrow> nat"

text \<open>\<^verbatim>\<open>ParticleSystem::findFree\<close> (line 248): the first slot with \<^verbatim>\<open>age >= life\<close>;
  \<open>None\<close> is the result \<^verbatim>\<open>-1\<close>.\<close>

fun findFree :: "Particle list \<Rightarrow> nat option" where
  "findFree [] = None"
| "findFree (p # ps) = (if pt_life p \<le> pt_age p then Some 0 else map_option Suc (findFree ps))"

text \<open>The body of the loop of \<^verbatim>\<open>emit\<close> after the slot is found: the particle written into
  the slot, with the three calls of \<^verbatim>\<open>rand()\<close> numbered \<open>k\<close>, \<open>k + 1\<close>, \<open>k + 2\<close>.\<close>

definition spawn :: "LibC \<Rightarrow> rat \<Rightarrow> rat \<Rightarrow> nat \<Rightarrow> Particle" where
  "spawn L x y k =
     (let ang = f32 (f32 (f32 (of_nat (rand_seq L k)) / f32 (of_int (RAND_MAX L))) * f32 (628318 / 100000));
          sp = f32 (50 + f32 (f32 (f32 (of_nat (rand_seq L (k + 1))) / f32 (of_int (RAND_MAX L))) * 200))
      in \<lparr>pt_x = x, pt_y = y,
          pt_vx = f32 (cosf L ang * sp), pt_vy = f32 (sinf L ang * sp),
          pt_life = f32 (of_nat (300 + rand_seq L (k + 2) mod 800)), pt_age = 0\<rparr>)"

text \<open>\<^verbatim>\<open>ParticleSystem::emit\<close> (line 244). The state is the number of calls of \<^verbatim>\<open>rand()\<close>
  made so far and the pool; the loop runs \<open>nat n\<close> times unless it breaks.\<close>

fun emitLoop :: "LibC \<Rightarrow> rat \<Rightarrow> rat \<Rightarrow> nat \<Rightarrow> nat \<times> Particle list \<Rightarrow> nat \<times> Particle list" where
  "emitLoop L x y 0 s = s"
| "emitLoop L x y (Suc i) (k, pool) = (case findFree pool of
     None \<Rightarrow> (k, pool)
   | Some idx \<Rightarrow> emitLoop L x y i (k + 3, pool[idx := spawn L x y k]))"

definition emit :: "LibC \<Rightarrow> rat \<Rightarrow> rat \<Rightarrow> int \<Rightarrow> nat \<times> Particle list \<Rightarrow> nat \<times> Particle list" where
  "emit L x y n s = emitLoop L x y (nat n) s"

text \<open>\<^verbatim>\<open>ParticleSystem::update\<close> (line 245); \<open>dt\<close> is a double, the fields are floats.\<close>

definition updateParticle :: "rat \<Rightarrow> Particle \<Rightarrow> Particle" where
  "updateParticle dt p =
     (if pt_age p < pt_life p then
        let age' = f32 (f64 (pt_age p + f64 (dt * 1000)));
            vy' = f32 (f64 (pt_vy p + f64 (300 * dt)));
            x' = f32 (f64 (pt_x p + f64 (pt_vx p * dt)));
            y' = f32 (f64 (pt_y p + f64 (vy' * dt)))
        in p\<lparr>pt_age := age', pt_vy := vy', pt_x := x', pt_y := y'\<rparr>
      else p)"

definition update :: "rat \<Rightarrow> Particle list \<Rightarrow> Particle list" where
  "update dt pool = map (updateParticle dt) pool"

text \<open>The number of dead slots of a pool, and of live ones.\<close>

definition deadCount :: "Particle list \<Rightarrow> nat" where
  "deadCount pool = length (filter (\<lambda>p. pt_life p \<le> pt_age p) pool)"

definition liveCount :: "Particle list \<Rightarrow> nat" where
  "liveCount pool = length (filter (\<lambda>p. pt_age p < pt_life p) pool)"

section \<open>Collision\<close>

record AABB =
  bx_x :: rat
  bx_y :: rat
  bx_w :: rat
  bx_h :: rat

text \<open>The box of a collider at a transform, as both loops of \<^verbatim>\<open>collisionSolve\<close> build it
  (lines 357, 358): \<^verbatim>\<open>{ t->x - c->w/2.0f + c->offx, t->y - c->h/2.0f + c->offy, c->w, c->h }\<close>.\<close>

definition mkAABB :: "Transform \<Rightarrow> Collider \<Rightarrow> AABB" where
  "mkAABB t c =
     \<lparr>bx_x = f32 (f32 (tr_x t - f32 (col_w c / 2)) + col_offx c),
      bx_y = f32 (f32 (tr_y t - f32 (col_h c / 2)) + col_offy c),
      bx_w = col_w c, bx_h = col_h c\<rparr>"

text \<open>\<^verbatim>\<open>Engine::aabbIntersect\<close> (line 367).\<close>

definition aabbIntersect :: "AABB \<Rightarrow> AABB \<Rightarrow> bool" where
  "aabbIntersect a b =
     (\<not> (f32 (bx_x a + bx_w a) < bx_x b \<or> f32 (bx_x b + bx_w b) < bx_x a
        \<or> f32 (bx_y a + bx_h a) < bx_y b \<or> f32 (bx_y b + bx_h b) < bx_y a))"

text \<open>The locals \<^verbatim>\<open>dx\<close>, \<^verbatim>\<open>dy\<close>, \<^verbatim>\<open>overlapX\<close>, \<^verbatim>\<open>overlapY\<close> of \<^verbatim>\<open>resolveCollision\<close> (line 370).\<close>

definition deltaX :: "AABB \<Rightarrow> AABB \<Rightarrow> rat" where
  "deltaX aa bb =
     (let axc = f32 (bx_x aa + f32 (bx_w aa * (1 / 2)));
          bxc = f32 (bx_x bb + f32 (bx_w bb * (1 / 2)))
      in f32 (bxc - axc))"

definition deltaY :: "AABB \<Rightarrow> AABB \<Rightarrow> rat" where
  "deltaY aa bb =
     (let ayc = f32 (bx_y aa + f32 (bx_h aa * (1 / 2)));
          byc = f32 (bx_y bb + f32 (bx_h bb * (1 / 2)))
      in f32 (byc - ayc))"

definition overlapX :: "AABB \<Rightarrow> AABB \<Rightarrow> rat" where
  "overlapX aa bb = f32 (f32 (f32 (bx_w aa + bx_w bb) / 2) - \<bar>deltaX aa bb\<bar>)"

definition overlapY :: "AABB \<Rightarrow> AABB \<Rightarrow> rat" where
  "overlapY aa bb = f32 (f32 (f32 (bx_h aa + bx_h bb) / 2) - \<bar>deltaY aa bb\<bar>)"

text \<open>\<^verbatim>\<open>sign = d>0 ? 1.0f : -1.0f\<close>.\<close>

definition signOf :: "rat \<Rightarrow> rat" where
  "signOf d = (if 0 < d then 1 else - 1)"

text \<open>The writes of \<^verbatim>\<open>resolveCollision\<close>: \<^verbatim>\<open>t->x -= v\<close>, \<^verbatim>\<open>t->x += v\<close> and the same on
  \<^verbatim>\<open>y\<close>.\<close>

definition subX :: "int \<Rightarrow> rat \<Rightarrow> World \<Rightarrow> World" where
  "subX i v = updTransform i (\<lambda>t. t\<lparr>tr_x := f32 (tr_x t - v)\<rparr>)"

definition addX :: "int \<Rightarrow> rat \<Rightarrow> World \<Rightarrow> World" where
  "addX i v = updTransform i (\<lambda>t. t\<lparr>tr_x := f32 (tr_x t + v)\<rparr>)"

definition subY :: "int \<Rightarrow> rat \<Rightarrow> World \<Rightarrow> World" where
  "subY i v = updTransform i (\<lambda>t. t\<lparr>tr_y := f32 (tr_y t - v)\<rparr>)"

definition addY :: "int \<Rightarrow> rat \<Rightarrow> World \<Rightarrow> World" where
  "addY i v = updTransform i (\<lambda>t. t\<lparr>tr_y := f32 (tr_y t + v)\<rparr>)"

text \<open>
  \<^verbatim>\<open>Engine::resolveCollision\<close> (lines 369--380). The six component pointers are fetched
  first; the function returns at once when a collider or a transform is missing. The
  branch on \<^verbatim>\<open>overlapX < overlapY\<close> chooses the axis; in each branch the position is
  corrected according to the two \<^verbatim>\<open>isStatic\<close> flags, then the velocity on that axis is
  set to zero on each physics component present, and the Y branch sets the ground flags.
\<close>

definition resolveCollision :: "int \<Rightarrow> int \<Rightarrow> AABB \<Rightarrow> AABB \<Rightarrow> World \<Rightarrow> World" where
  "resolveCollision aid bid aa bb wld =
     (case (colliders wld aid, transforms wld aid, colliders wld bid, transforms wld bid) of
        (Some ac, Some atr, Some bc, Some btr) \<Rightarrow>
          if overlapX aa bb < overlapY aa bb then
            let sign = signOf (deltaX aa bb);
                w1 = (if \<not> isStatic ac \<and> \<not> isStatic bc then
                        addX bid (f32 (f32 (sign * overlapX aa bb) * (1 / 2)))
                          (subX aid (f32 (f32 (sign * overlapX aa bb) * (1 / 2))) wld)
                      else if \<not> isStatic ac then subX aid (f32 (sign * overlapX aa bb)) wld
                      else if \<not> isStatic bc then addX bid (f32 (sign * overlapX aa bb)) wld
                      else wld)
            in updPhysics bid (\<lambda>p. p\<lparr>ph_vx := 0\<rparr>) (updPhysics aid (\<lambda>p. p\<lparr>ph_vx := 0\<rparr>) w1)
          else
            let sign = signOf (deltaY aa bb);
                w1 = (if \<not> isStatic ac \<and> \<not> isStatic bc then
                        addY bid (f32 (f32 (sign * overlapY aa bb) * (1 / 2)))
                          (subY aid (f32 (f32 (sign * overlapY aa bb) * (1 / 2))) wld)
                      else if \<not> isStatic ac then subY aid (f32 (sign * overlapY aa bb)) wld
                      else if \<not> isStatic bc then addY bid (f32 (sign * overlapY aa bb)) wld
                      else wld)
            in updPhysics bid (\<lambda>p. (if sign < 0 then p\<lparr>onGround := True\<rparr> else p)\<lparr>ph_vy := 0\<rparr>)
                 (updPhysics aid (\<lambda>p. (if 0 < sign then p\<lparr>onGround := True\<rparr> else p)\<lparr>ph_vy := 0\<rparr>) w1)
      | _ \<Rightarrow> wld)"

text \<open>
  \<^verbatim>\<open>Engine::collisionSolve\<close> (lines 356--364). The outer loop takes the entities in order;
  an entity without collider or transform is skipped; the box \<^verbatim>\<open>aa\<close> is built once, before
  the inner loop, and is not rebuilt when a resolution moves the entity. The inner loop
  runs over the entities after it and builds \<^verbatim>\<open>bb\<close> from the current transform.
\<close>

fun collideWith :: "int \<Rightarrow> AABB \<Rightarrow> int list \<Rightarrow> World \<Rightarrow> World" where
  "collideWith a aa [] wld = wld"
| "collideWith a aa (b # bs) wld = (case (colliders wld b, transforms wld b) of
     (Some bc, Some btr) \<Rightarrow>
       collideWith a aa bs
         (if aabbIntersect aa (mkAABB btr bc) then resolveCollision a b aa (mkAABB btr bc) wld else wld)
   | _ \<Rightarrow> collideWith a aa bs wld)"

fun collidePairs :: "int list \<Rightarrow> World \<Rightarrow> World" where
  "collidePairs [] wld = wld"
| "collidePairs (a # rest) wld = (case (colliders wld a, transforms wld a) of
     (Some ac, Some atr) \<Rightarrow> collidePairs rest (collideWith a (mkAABB atr ac) rest wld)
   | _ \<Rightarrow> collidePairs rest wld)"

definition collisionSolve :: "World \<Rightarrow> World" where
  "collisionSolve wld = collidePairs (entities wld) wld"

text \<open>
  The resolutions a pass makes, in the order it makes them: one entry for every call
  \<^verbatim>\<open>resolveCollision(a, b, aa, bb)\<close> of line 360. \<open>contactsWith\<close> follows the inner loop and
  \<open>contactsOf\<close> the outer one, each on the world as the resolutions before have left it.
\<close>

type_synonym Contact = "int \<times> int \<times> AABB \<times> AABB"

fun contactsWith :: "int \<Rightarrow> AABB \<Rightarrow> int list \<Rightarrow> World \<Rightarrow> Contact list" where
  "contactsWith a aa [] wld = []"
| "contactsWith a aa (b # bs) wld = (case (colliders wld b, transforms wld b) of
     (Some bc, Some btr) \<Rightarrow>
       if aabbIntersect aa (mkAABB btr bc)
       then (a, b, aa, mkAABB btr bc)
              # contactsWith a aa bs (resolveCollision a b aa (mkAABB btr bc) wld)
       else contactsWith a aa bs wld
   | _ \<Rightarrow> contactsWith a aa bs wld)"

fun contactsOf :: "int list \<Rightarrow> World \<Rightarrow> Contact list" where
  "contactsOf [] wld = []"
| "contactsOf (a # rest) wld = (case (colliders wld a, transforms wld a) of
     (Some ac, Some atr) \<Rightarrow>
       contactsWith a (mkAABB atr ac) rest wld
         @ contactsOf rest (collideWith a (mkAABB atr ac) rest wld)
   | _ \<Rightarrow> contactsOf rest wld)"

definition passContacts :: "World \<Rightarrow> Contact list" where
  "passContacts wld = contactsOf (entities wld) wld"

definition applyContact :: "World \<Rightarrow> Contact \<Rightarrow> World" where
  "applyContact wld c = (case c of (a, b, aa, bb) \<Rightarrow> resolveCollision a b aa bb wld)"

text \<open>
  A contact that faces downwards for entity \<open>i\<close>, as lines 377 and 378 test it: the
  resolution is on Y, and \<open>i\<close> is the first entity with \<^verbatim>\<open>sign > 0\<close> (that is \<^verbatim>\<open>dy > 0\<close>) or
  the second with \<^verbatim>\<open>sign < 0\<close> (that is \<^verbatim>\<open>dy <= 0\<close>).
\<close>

definition setsGround :: "int \<Rightarrow> Contact \<Rightarrow> bool" where
  "setsGround i c = (case c of (a, b, aa, bb) \<Rightarrow>
     \<not> overlapX aa bb < overlapY aa bb
     \<and> ((i = a \<and> 0 < deltaY aa bb) \<or> (i = b \<and> \<not> 0 < deltaY aa bb)))"

text \<open>The box of an entity as the loops build it from the current world.\<close>

definition boxOf :: "World \<Rightarrow> int \<Rightarrow> AABB option" where
  "boxOf wld i = (case (colliders wld i, transforms wld i) of
     (Some c, Some t) \<Rightarrow> Some (mkAABB t c)
   | _ \<Rightarrow> None)"

text \<open>An entity with collider and transform.\<close>

definition hasBox :: "World \<Rightarrow> int \<Rightarrow> bool" where
  "hasBox wld i = (colliders wld i \<noteq> None \<and> transforms wld i \<noteq> None)"

section \<open>The fixed update\<close>

text \<open>
  A \<^verbatim>\<open>Script\<close> component holds the closure \<^verbatim>\<open>onUpdate(id, dt)\<close>. The closures are kept
  beside the world: \<open>sc i\<close> is the update callback of entity \<open>i\<close>, \<open>None\<close> when the entity
  has no script or an empty callback, and a callback is any function on the world. A
  callback is taken not to create or destroy entities while the loop over them runs.
\<close>

type_synonym Scripts = "int \<Rightarrow> (int \<Rightarrow> rat \<Rightarrow> World \<Rightarrow> World) option"

record Engine =
  world :: World
  particles :: "Particle list"
  camX :: rat
  camY :: rat
  screenW :: int
  screenH :: int

text \<open>The first loop of \<^verbatim>\<open>fixedUpdate\<close> (lines 342--343).\<close>

fun runScripts :: "Scripts \<Rightarrow> rat \<Rightarrow> int list \<Rightarrow> World \<Rightarrow> World" where
  "runScripts sc dt [] wld = wld"
| "runScripts sc dt (i # ids) wld =
     runScripts sc dt ids (case sc i of None \<Rightarrow> wld | Some f \<Rightarrow> f i dt wld)"

text \<open>The second loop (lines 345--346): semi-implicit Euler on each entity with physics and
  transform; gravity is added whether the body is on the ground or not.\<close>

definition integrateBody :: "rat \<Rightarrow> Physics \<Rightarrow> Transform \<Rightarrow> Physics \<times> Transform" where
  "integrateBody dt p t =
     (let vy1 = f32 (f64 (ph_vy p + f64 (ph_gravity p * dt)));
          vx1 = f32 (f64 (ph_vx p + f64 (ph_ax p * dt)));
          vy2 = f32 (f64 (vy1 + f64 (ph_ay p * dt)));
          x1 = f32 (f64 (tr_x t + f64 (vx1 * dt)));
          y1 = f32 (f64 (tr_y t + f64 (vy2 * dt)))
      in (p\<lparr>ph_vy := vy2, ph_vx := vx1\<rparr>, t\<lparr>tr_x := x1, tr_y := y1\<rparr>))"

fun integrate :: "rat \<Rightarrow> int list \<Rightarrow> World \<Rightarrow> World" where
  "integrate dt [] wld = wld"
| "integrate dt (i # ids) wld = integrate dt ids
     (case (physics wld i, transforms wld i) of
        (Some p, Some t) \<Rightarrow>
          wld\<lparr>physics := (physics wld)(i \<mapsto> fst (integrateBody dt p t)),
              transforms := (transforms wld)(i \<mapsto> snd (integrateBody dt p t))\<rparr>
      | _ \<Rightarrow> wld)"

text \<open>
  The body of the animation loop (line 351) on one \<^verbatim>\<open>Animation\<close>:
  \<^verbatim>\<open>timer += dt; if(timer >= frameTime){ timer = 0; current = (current + 1) % max(1, frameCount); }\<close>.
  The timer is a double, \<^verbatim>\<open>frameTime\<close> a float that the comparison widens.
\<close>

definition advanceAnimation :: "rat \<Rightarrow> Animation \<Rightarrow> error + Animation" where
  "advanceAnimation dt an =
     (let t = f64 (timer an + dt) in
      if frameTime an \<le> t then
        (case int_add (current an) 1 of
           Inl err \<Rightarrow> Inl err
         | Inr c \<Rightarrow> (case int_rem c (max 1 (frameCount an)) of
             Inl err \<Rightarrow> Inl err
           | Inr c' \<Rightarrow> Inr (an\<lparr>timer := 0, current := c'\<rparr>)))
      else Inr (an\<lparr>timer := t\<rparr>))"

text \<open>
  The animation loop (lines 350--351) asks for every \<^verbatim>\<open>"sprite"\<close> component as an
  \<^verbatim>\<open>AnimatedSprite\<close>; on a plain \<^verbatim>\<open>Sprite\<close> the cast is undefined behaviour.
\<close>

fun animate :: "rat \<Rightarrow> int list \<Rightarrow> World \<Rightarrow> error + World" where
  "animate dt [] wld = Inr wld"
| "animate dt (i # ids) wld = (case sprites wld i of
     None \<Rightarrow> animate dt ids wld
   | Some (PlainSprite s) \<Rightarrow> Inl BadDowncast
   | Some (AnimatedSprite s an) \<Rightarrow> (case advanceAnimation dt an of
       Inl err \<Rightarrow> Inl err
     | Inr an' \<Rightarrow> animate dt ids (wld\<lparr>sprites := (sprites wld)(i \<mapsto> AnimatedSprite s an')\<rparr>)))"

text \<open>\<^verbatim>\<open>Engine::fixedUpdate\<close> (lines 340--354): scripts, integration, collision, animation,
  particles, in this order.\<close>

definition fixedUpdate :: "Scripts \<Rightarrow> rat \<Rightarrow> Engine \<Rightarrow> error + Engine" where
  "fixedUpdate sc dt e =
     (let w1 = runScripts sc dt (entities (world e)) (world e);
          w2 = integrate dt (entities w1) w1;
          w3 = collisionSolve w2
      in case animate dt (entities w3) w3 of
           Inl err \<Rightarrow> Inl err
         | Inr w4 \<Rightarrow> Inr (e\<lparr>world := w4, particles := update dt (particles e)\<rparr>))"

text \<open>The world as the scripts of a fixed update leave it, on which the later loops run.\<close>

definition afterScripts :: "Scripts \<Rightarrow> rat \<Rightarrow> Engine \<Rightarrow> World" where
  "afterScripts sc dt e = runScripts sc dt (entities (world e)) (world e)"

text \<open>\<open>n\<close> fixed updates in a row, stopping at the first error.\<close>

fun fixedUpdates :: "Scripts \<Rightarrow> rat \<Rightarrow> nat \<Rightarrow> Engine \<Rightarrow> error + Engine" where
  "fixedUpdates sc dt 0 e = Inr e"
| "fixedUpdates sc dt (Suc n) e = (case fixedUpdate sc dt e of
     Inl err \<Rightarrow> Inl err
   | Inr e' \<Rightarrow> fixedUpdates sc dt n e')"

section \<open>Camera and frame\<close>

text \<open>
  The loop of \<^verbatim>\<open>Engine::computeCamera\<close> (line 401): the target of the first entity, in the
  order of the store, that has physics and transform; \<open>None\<close> is \<^verbatim>\<open>found == false\<close>.
\<close>

fun trackTarget :: "int \<Rightarrow> int \<Rightarrow> int list \<Rightarrow> World \<Rightarrow> (rat \<times> rat) option" where
  "trackTarget sw sh [] wld = None"
| "trackTarget sw sh (i # ids) wld = (case (physics wld i, transforms wld i) of
     (Some p, Some t) \<Rightarrow>
       Some (f32 (tr_x t - f32 (f32 (of_int sw) / 2)), f32 (tr_y t - f32 (f32 (of_int sh) / 2)))
   | _ \<Rightarrow> trackTarget sw sh ids wld)"

text \<open>\<^verbatim>\<open>Engine::computeCamera\<close> (lines 399--402); the factor is the literal \<^verbatim>\<open>0.12f\<close>.\<close>

definition computeCamera :: "Engine \<Rightarrow> Engine" where
  "computeCamera e =
     (case trackTarget (screenW e) (screenH e) (entities (world e)) (world e) of
        None \<Rightarrow> e
      | Some (targetX, targetY) \<Rightarrow>
          e\<lparr>camX := f32 (camX e + f32 (f32 (targetX - camX e) * f32 (12 / 100))),
            camY := f32 (camY e + f32 (f32 (targetY - camY e) * f32 (12 / 100)))\<rparr>)"

text \<open>\<^verbatim>\<open>Engine::render\<close> (lines 382--397) calls \<^verbatim>\<open>computeCamera\<close> and then draws; drawing
  and the frame counter of the overlay change nothing that the simulation reads.\<close>

definition render :: "Engine \<Rightarrow> Engine" where
  "render e = computeCamera e"

text \<open>The constants of \<^verbatim>\<open>Engine::run\<close> (line 334): \<^verbatim>\<open>fixedDt = 1.0/60.0\<close>, \<^verbatim>\<open>maxAccum = 0.25\<close>.\<close>

definition fixedDt :: rat where
  "fixedDt = f64 (1 / 60)"

definition maxAccum :: rat where
  "maxAccum = 1 / 4"

text \<open>
  The inner loop of \<^verbatim>\<open>run\<close>:
  \<^verbatim>\<open>while(accumulator >= fixedDt){ fixedUpdate(fixedDt); accumulator -= fixedDt; }\<close>.
  The result is \<open>None\<close> when the loop does not end, an error when a fixed update runs
  into one, and else the accumulator and the engine the loop leaves.
\<close>

partial_function (option) fixedLoop :: "Scripts \<Rightarrow> rat \<Rightarrow> Engine \<Rightarrow> (error + rat \<times> Engine) option" where
  "fixedLoop sc accumulator e =
     (if fixedDt \<le> accumulator then
        (case fixedUpdate sc fixedDt e of
           Inl err \<Rightarrow> Some (Inl err)
         | Inr e' \<Rightarrow> fixedLoop sc (f64 (accumulator - fixedDt)) e')
      else Some (Inr (accumulator, e)))"

text \<open>The accumulator after \<open>n\<close> passes of the body of that loop, started at \<open>a\<close>.\<close>

fun accAfter :: "nat \<Rightarrow> rat \<Rightarrow> rat" where
  "accAfter 0 a = a"
| "accAfter (Suc n) a = f64 (accAfter n a - fixedDt)"

text \<open>
  One pass of the body of \<^verbatim>\<open>while(running)\<close> in \<^verbatim>\<open>run\<close>, from the measured
  \<^verbatim>\<open>frameTime.count()\<close> on (\<open>elapsed\<close>, in seconds): accumulate, clamp
  (\<^verbatim>\<open>if(accumulator > maxAccum) accumulator = maxAccum\<close>), the fixed updates, one render.
  Polling the input comes before it and the frame cap after it; neither touches the
  accumulator. The state is the accumulator and the engine.
\<close>

definition clampAccum :: "rat \<Rightarrow> rat" where
  "clampAccum accumulator = (if maxAccum < accumulator then maxAccum else accumulator)"

definition frame :: "Scripts \<Rightarrow> rat \<Rightarrow> rat \<times> Engine \<Rightarrow> (error + rat \<times> Engine) option" where
  "frame sc elapsed s =
     (let acc1 = f64 (fst s + elapsed);
          acc2 = clampAccum acc1
      in case fixedLoop sc acc2 (snd s) of
           None \<Rightarrow> None
         | Some (Inl err) \<Rightarrow> Some (Inl err)
         | Some (Inr (acc3, e')) \<Rightarrow> Some (Inr (acc3, render e')))"

section \<open>Example states\<close>

text \<open>A dead slot as the constructor of the pool leaves it (\<^verbatim>\<open>age = 1e9f\<close>, the rest zero),
  here with a position and a velocity to tell a change by.\<close>

definition deadSlot :: Particle where
  "deadSlot = \<lparr>pt_x = 1, pt_y = 2, pt_vx = 3, pt_vy = 4, pt_life = 0, pt_age = 1000000000\<rparr>"

text \<open>Two dynamic bodies with boxes of side 2 whose centres are one apart on both axes: the
  overlap is 1 on X and on Y.\<close>

definition posAt :: "rat \<Rightarrow> rat \<Rightarrow> Transform" where
  "posAt x y = \<lparr>tr_x = x, tr_y = y, tr_rot = 0, tr_sx = 1, tr_sy = 1\<rparr>"

definition dynBox :: Collider where
  "dynBox = \<lparr>col_w = 2, col_h = 2, col_offx = 0, col_offy = 0, isStatic = False\<rparr>"

definition moving :: Physics where
  "moving = \<lparr>ph_vx = 5, ph_vy = 5, ph_ax = 0, ph_ay = 0, ph_mass = 1, ph_gravity = 900,
     onGround = False\<rparr>"

definition boxA :: AABB where
  "boxA = \<lparr>bx_x = 0, bx_y = 0, bx_w = 2, bx_h = 2\<rparr>"

definition boxB :: AABB where
  "boxB = \<lparr>bx_x = 1, bx_y = 1, bx_w = 2, bx_h = 2\<rparr>"

definition tieWorld :: World where
  "tieWorld = \<lparr>entities = [1, 2],
     transforms = [1 \<mapsto> posAt 1 1, 2 \<mapsto> posAt 2 2],
     sprites = Map.empty,
     physics = [1 \<mapsto> moving, 2 \<mapsto> moving],
     colliders = [1 \<mapsto> dynBox, 2 \<mapsto> dynBox]\<rparr>"

text \<open>Two static bodies that overlap by 1/2 on X and by 3/2 on Y, both with physics.\<close>

definition statBox :: Collider where
  "statBox = \<lparr>col_w = 2, col_h = 2, col_offx = 0, col_offy = 0, isStatic = True\<rparr>"

definition boxC :: AABB where
  "boxC = \<lparr>bx_x = 3 / 2, bx_y = 1 / 2, bx_w = 2, bx_h = 2\<rparr>"

definition staticWorld :: World where
  "staticWorld = \<lparr>entities = [1, 2],
     transforms = [1 \<mapsto> posAt 1 1, 2 \<mapsto> posAt (5 / 2) (3 / 2)],
     sprites = Map.empty,
     physics = [1 \<mapsto> moving, 2 \<mapsto> moving],
     colliders = [1 \<mapsto> statBox, 2 \<mapsto> statBox]\<rparr>"

text \<open>A body in the air whose ground flag is still set, far above a static floor.\<close>

definition grounded :: Physics where
  "grounded = moving\<lparr>onGround := True\<rparr>"

definition floorBox :: Collider where
  "floorBox = \<lparr>col_w = 100, col_h = 2, col_offx = 0, col_offy = 0, isStatic = True\<rparr>"

definition airWorld :: World where
  "airWorld = \<lparr>entities = [1, 2],
     transforms = [1 \<mapsto> posAt 0 0, 2 \<mapsto> posAt 0 100],
     sprites = Map.empty,
     physics = [1 \<mapsto> grounded],
     colliders = [1 \<mapsto> dynBox, 2 \<mapsto> floorBox]\<rparr>"

text \<open>A body that is not flagged, half a unit into a static floor below it, and a second
  unflagged body far from both.\<close>

definition boxP :: AABB where
  "boxP = \<lparr>bx_x = - 1, bx_y = - 1, bx_w = 2, bx_h = 2\<rparr>"

definition boxF :: AABB where
  "boxF = \<lparr>bx_x = - 50, bx_y = 1 / 2, bx_w = 100, bx_h = 2\<rparr>"

definition landWorld :: World where
  "landWorld = \<lparr>entities = [1, 2, 3],
     transforms = [1 \<mapsto> posAt 0 0, 2 \<mapsto> posAt 0 (3 / 2), 3 \<mapsto> posAt 50 (- 50)],
     sprites = Map.empty,
     physics = [1 \<mapsto> moving, 3 \<mapsto> moving],
     colliders = [1 \<mapsto> dynBox, 2 \<mapsto> floorBox, 3 \<mapsto> dynBox]\<rparr>"

text \<open>Animations whose timer fires at once (\<^verbatim>\<open>frameTime = 0\<close>).\<close>

definition anNeg :: Animation where
  "anNeg = \<lparr>frameCount = 2, frameTime = 0, loop = True, current = - 4, timer = 0\<rparr>"

definition anMax :: Animation where
  "anMax = \<lparr>frameCount = 2, frameTime = 0, loop = True, current = 2147483647, timer = 0\<rparr>"

definition anLast :: Animation where
  "anLast = \<lparr>frameCount = 4, frameTime = 0, loop = True, current = 3, timer = 0\<rparr>"

text \<open>A pool of three slots, the middle one live, and a C library whose \<^verbatim>\<open>rand()\<close> returns 0.\<close>

definition liveSlot :: Particle where
  "liveSlot = \<lparr>pt_x = 0, pt_y = 0, pt_vx = 0, pt_vy = 0, pt_life = 300, pt_age = 0\<rparr>"

definition pool3 :: "Particle list" where
  "pool3 = [deadSlot, liveSlot, deadSlot]"

definition libc0 :: LibC where
  "libc0 = \<lparr>cosf = (\<lambda>a. 1), sinf = (\<lambda>a. 0), RAND_MAX = 2147483647, rand_seq = (\<lambda>k. 0)\<rparr>"

text \<open>No entity has a script.\<close>

definition noScripts :: Scripts where
  "noScripts = (\<lambda>i. None)"

text \<open>An engine with no entity and no particle, on the window of \<^verbatim>\<open>main\<close>.\<close>

definition emptyEngine :: Engine where
  "emptyEngine = \<lparr>world = \<lparr>entities = [], transforms = Map.empty, sprites = Map.empty,
       physics = Map.empty, colliders = Map.empty\<rparr>,
     particles = [], camX = 0, camY = 0, screenW = 1280, screenH = 720\<rparr>"

text \<open>One body with physics at (740, 460) on a window of 1280 by 720, the camera at the
  origin: the target of the camera is (100, 100).\<close>

definition camEngine :: Engine where
  "camEngine = \<lparr>world = \<lparr>entities = [1], transforms = [1 \<mapsto> posAt 740 460], sprites = Map.empty,
       physics = [1 \<mapsto> moving], colliders = Map.empty\<rparr>,
     particles = [], camX = 0, camY = 0, screenW = 1280, screenH = 720\<rparr>"

text \<open>One entity with an animated sprite of four frames and \<^verbatim>\<open>frameTime = 0.1f\<close>, at frame
  \<open>c\<close> with timer \<open>t\<close>, and nothing else.\<close>

definition walk :: "int \<Rightarrow> rat \<Rightarrow> Animation" where
  "walk c t = \<lparr>frameCount = 4, frameTime = f32 (1 / 10), loop = True, current = c, timer = t\<rparr>"

definition playerSprite :: Sprite where
  "playerSprite = \<lparr>sp_tex = ''player'', sp_sx = 0, sp_sy = 0, sp_sw = 48, sp_sh = 48,
     sp_centered = True, sp_layer = 0\<rparr>"

definition animEngine :: "Animation \<Rightarrow> Engine" where
  "animEngine an = \<lparr>world = \<lparr>entities = [1], transforms = Map.empty,
       sprites = [1 \<mapsto> AnimatedSprite playerSprite an],
       physics = Map.empty, colliders = Map.empty\<rparr>,
     particles = [], camX = 0, camY = 0, screenW = 1280, screenH = 720\<rparr>"

text \<open>A tile with a plain sprite, as \<^verbatim>\<open>createDemoScene\<close> makes 80 of (line 304), before the
  entity with the animated sprite.\<close>

definition tileSprite :: Sprite where
  "tileSprite = \<lparr>sp_tex = ''tiles'', sp_sx = 0, sp_sy = 0, sp_sw = 64, sp_sh = 64,
     sp_centered = True, sp_layer = 0\<rparr>"

definition tileEngine :: Engine where
  "tileEngine = \<lparr>world = \<lparr>entities = [1, 2], transforms = Map.empty,
       sprites = [1 \<mapsto> PlainSprite tileSprite, 2 \<mapsto> AnimatedSprite playerSprite (walk 0 0)],
       physics = Map.empty, colliders = Map.empty\<rparr>,
     particles = [], camX = 0, camY = 0, screenW = 1280, screenH = 720\<rparr>"

text \<open>The timer after \<open>k\<close> fixed updates that did not reset it, started at 0.\<close>

fun tick :: "nat \<Rightarrow> rat" where
  "tick 0 = 0"
| "tick (Suc k) = f64 (tick k + fixedDt)"

section \<open>Writes through component pointers\<close>

lemma updPhysics_fields:
  "transforms (updPhysics i f wld) = transforms wld"
  "colliders (updPhysics i f wld) = colliders wld"
  "entities (updPhysics i f wld) = entities wld"
  "sprites (updPhysics i f wld) = sprites wld"
  "physics (updPhysics i f wld) j = (if j = i then map_option f (physics wld i) else physics wld j)"
  by (simp_all add: updPhysics_def split: option.splits)

lemma updTransform_fields:
  "physics (updTransform i f wld) = physics wld"
  "colliders (updTransform i f wld) = colliders wld"
  "entities (updTransform i f wld) = entities wld"
  "sprites (updTransform i f wld) = sprites wld"
  "transforms (updTransform i f wld) j = (if j = i then map_option f (transforms wld i) else transforms wld j)"
  by (simp_all add: updTransform_def split: option.splits)

lemmas move_defs = subX_def addX_def subY_def addY_def

section \<open>Input map\<close>

text \<open>
  C8. The claim: several keys can be bound to one action and \<^verbatim>\<open>actionDown\<close> is true when any
  of them is down; after \<^verbatim>\<open>bind("left", A)\<close> and \<^verbatim>\<open>bind("left", LEFT)\<close> the action \<^verbatim>\<open>"left"\<close>
  is down when A or LEFT is held. The table keeps one key per action: a second \<^verbatim>\<open>bind\<close>
  replaces the first, and \<^verbatim>\<open>actionDown\<close> looks at the last key bound only. With the
  bindings of \<^verbatim>\<open>Engine::init\<close> and A alone held, \<^verbatim>\<open>actionDown("left")\<close> is false.
\<close>

theorem bind_twice_keeps_last_key:
  "actionDown (bind a k2 (bind a k1 m)) st a = down st k2
   \<and> actionDown initBindings (Map.empty(SDL_SCANCODE_A \<mapsto> True)) ''left'' = False
   \<and> actionDown initBindings (Map.empty(SDL_SCANCODE_LEFT \<mapsto> True)) ''left'' = True"
  by (simp add: actionDown_def bind_def initBindings_def down_def)

section \<open>Particle pool\<close>

text \<open>
  C10. \<^verbatim>\<open>ParticleSystem::update(dt)\<close> leaves every dead slot (\<^verbatim>\<open>age >= life\<close>) as it is:
  position, velocity, life and age are the same before and after, for every \<open>dt\<close>, and
  the pool keeps its length.
\<close>

theorem update_keeps_dead_slots:
  "i < length pool \<Longrightarrow> pt_life (pool ! i) \<le> pt_age (pool ! i) \<Longrightarrow>
     length (update dt pool) = length pool \<and> update dt pool ! i = pool ! i"
  by (simp add: update_def updateParticle_def)

theorem update_keeps_dead_slots_witness:
  "0 < length [deadSlot] \<and> pt_life ([deadSlot] ! 0) \<le> pt_age ([deadSlot] ! 0)
   \<and> length (update (1 / 60) [deadSlot]) = length [deadSlot]
   \<and> update (1 / 60) [deadSlot] ! 0 = [deadSlot] ! 0"
  using update_keeps_dead_slots [of 0 "[deadSlot]" "1 / 60"] by (simp add: deadSlot_def)

section \<open>Rounding\<close>

lemma pow2_powi: "pow2 e = 2 powi e"
  by (simp add: pow2_def power_int_def field_simps)

lemma pow2_pos: "0 < pow2 e"
  by (simp add: pow2_powi)


lemma pow2_mono: "a \<le> b \<Longrightarrow> pow2 a \<le> pow2 b"
  by (simp add: pow2_powi power_int_increasing)

lemma pow2_less_cancel: "pow2 a < pow2 b \<Longrightarrow> a < b"
  using pow2_mono [of b a] by (cases "a < b") auto

lemma ilog2_lower:
  assumes "0 < x"
  shows "pow2 (ilog2 x) \<le> x"
proof (cases "1 \<le> x")
  case True
  then have fl: "0 < \<lfloor>x\<rfloor>" by simp
  have "bitlen \<lfloor>x\<rfloor> \<ge> 1" using fl by (simp add: bitlen_alt_def)
  then have "pow2 (ilog2 x) = 2 ^ nat (bitlen \<lfloor>x\<rfloor> - 1)"
    using True by (simp add: ilog2_def pow2_def)
  also have "\<dots> = of_int (2 ^ nat (bitlen \<lfloor>x\<rfloor> - 1))" by simp
  also have "\<dots> \<le> of_int \<lfloor>x\<rfloor>"
    using bitlen_bounds [OF fl] by (simp only: of_int_le_iff)
  also have "\<dots> \<le> x" by simp
  finally show ?thesis .
next
  case False
  define m where "m = \<lceil>1 / x\<rceil> - 1"
  have "1 < 1 / x" using assms False by (simp add: field_simps)
  then have "1 < \<lceil>1 / x\<rceil>" by (simp add: less_ceiling_iff)
  then have m: "0 < m" by (simp add: m_def)
  have b0: "0 \<le> bitlen m" by (rule bitlen_nonneg)
  have "1 / x \<le> of_int (m + 1)" by (simp add: m_def)
  also have "m + 1 \<le> 2 ^ nat (bitlen m)" using bitlen_bounds [OF m] by simp
  then have "(of_int (m + 1) :: rat) \<le> of_int (2 ^ nat (bitlen m))" by (simp only: of_int_le_iff)
  finally have "1 / x \<le> 2 ^ nat (bitlen m)" by simp
  then have "1 / 2 ^ nat (bitlen m) \<le> x"
    using assms by (simp add: field_simps)
  moreover have "pow2 (ilog2 x) = 1 / 2 ^ nat (bitlen m)"
    using False b0 by (auto simp: ilog2_def pow2_def m_def [symmetric])
  ultimately show ?thesis by simp
qed

lemma half_even_bounds: "of_int (half_even q) \<le> q + 1 / 2" "q - 1 / 2 \<le> of_int (half_even q)"
  by (auto simp: half_even_def Let_def; linarith)+

lemma half_even_ge1: "1 \<le> q \<Longrightarrow> 1 \<le> half_even q"
proof -
  assume "1 \<le> q"
  then have "1 \<le> \<lfloor>q\<rfloor>" by simp
  then show ?thesis by (auto simp: half_even_def Let_def)
qed

lemma round_to_pos:
  assumes "1 \<le> x" "emin \<le> 0" "0 < p"
  shows "0 < round_to p emin x"
proof -
  define e where "e = max (ilog2 \<bar>x\<bar> - (int p - 1)) emin"
  have x0: "0 < x" using assms by simp
  have "0 < \<lfloor>x\<rfloor>" using assms by simp
  then have "1 \<le> bitlen \<lfloor>x\<rfloor>" by (simp add: bitlen_alt_def)
  then have "0 \<le> ilog2 x" using assms by (simp add: ilog2_def)
  then have "e \<le> ilog2 x" using assms by (simp add: e_def)
  then have "pow2 e \<le> x" using pow2_mono ilog2_lower [OF x0] by (meson order_trans)
  then have "1 \<le> x / pow2 e" using pow2_pos [of e] by (simp add: field_simps)
  then have "1 \<le> half_even (x / pow2 e)" by (rule half_even_ge1)
  then have "0 < (of_int (half_even (x / pow2 e)) :: rat) * pow2 e"
    using pow2_pos [of e] by simp
  then show ?thesis using x0 by (simp add: round_to_def e_def Let_def)
qed

lemma f32_pos: "1 \<le> x \<Longrightarrow> 0 < f32 x"
  by (simp add: f32_def round_to_pos)

lemma round_to_upper:
  assumes "0 \<le> x" "x < pow2 k" "emin \<le> k - int p"
  shows "round_to p emin x \<le> x + pow2 (k - int p) / 2"
proof (cases "x = 0")
  case True
  then show ?thesis using pow2_pos [of "k - int p"] by (simp add: round_to_def)
next
  case False
  then have x0: "0 < x" using assms by simp
  define e where "e = max (ilog2 \<bar>x\<bar> - (int p - 1)) emin"
  have "pow2 (ilog2 x) < pow2 k" using ilog2_lower [OF x0] assms by simp
  then have "ilog2 x < k" by (rule pow2_less_cancel)
  then have ek: "e \<le> k - int p" using assms x0 by (simp add: e_def)
  have "round_to p emin x = of_int (half_even (x / pow2 e)) * pow2 e"
    using False by (simp add: round_to_def e_def Let_def)
  also have "\<dots> \<le> (x / pow2 e + 1 / 2) * pow2 e"
    using half_even_bounds(1) [of "x / pow2 e"] pow2_pos [of e] by (simp add: mult_right_mono)
  also have "\<dots> = x + pow2 e / 2" using pow2_pos [of e] by (simp add: field_simps)
  also have "\<dots> \<le> x + pow2 (k - int p) / 2" using pow2_mono [OF ek] by simp
  finally show ?thesis .
qed


lemma f64_0: "f64 0 = 0"
  by (simp add: f64_def round_to_def)

lemma f32_0: "f32 0 = 0"
  by (simp add: f32_def round_to_def)





lemma f64_upper_quarter:
  assumes "0 \<le> x" "x < 1 / 4"
  shows "f64 x \<le> x + 1 / 2 ^ 56"
proof -
  have "x < pow2 (- 2)" using assms by (simp add: pow2_def)
  from round_to_upper [OF assms(1) this, of "- 1074" 53]
  have "f64 x \<le> x + pow2 (- 55) / 2" by (simp add: f64_def)
  then show ?thesis by (simp add: pow2_def)
qed

lemma fixedDt_val: "fixedDt = 4803839602528529 / 288230376151711744"
  unfolding fixedDt_def by code_simp

section \<open>Emitting particles\<close>

lemma findFree_None: "findFree pool = None \<longleftrightarrow> (\<forall>p\<in>set pool. pt_age p < pt_life p)"
  by (induction pool) auto

lemma findFree_Some:
  "findFree pool = Some idx \<Longrightarrow> idx < length pool \<and> pt_life (pool ! idx) \<le> pt_age (pool ! idx)"
  by (induction pool arbitrary: idx) (auto split: if_splits)

lemma deadCount_zero: "deadCount pool = 0 \<longleftrightarrow> findFree pool = None"
  by (auto simp: deadCount_def findFree_None filter_empty_conv not_le)

lemma deadCount_fill:
  "idx < length pool \<Longrightarrow> pt_life (pool ! idx) \<le> pt_age (pool ! idx) \<Longrightarrow> pt_age q < pt_life q \<Longrightarrow>
     Suc (deadCount (pool[idx := q])) = deadCount pool"
proof (induction pool arbitrary: idx)
  case Nil
  then show ?case by simp
next
  case (Cons p ps)
  show ?case
  proof (cases idx)
    case 0
    then show ?thesis using Cons.prems by (simp add: deadCount_def)
  next
    case (Suc m)
    then have "Suc (deadCount (ps[m := q])) = deadCount ps" using Cons by simp
    then show ?thesis using Suc by (simp add: deadCount_def)
  qed
qed

lemma live_dead_count: "liveCount pool + deadCount pool = length pool"
  unfolding liveCount_def deadCount_def by (induction pool) auto

lemma spawn_live: "pt_age (spawn L x y k) < pt_life (spawn L x y k)"
proof -
  have "(1 :: rat) \<le> of_nat (300 + rand_seq L (k + 2) mod 800)" by simp
  then have "0 < f32 (of_nat (300 + rand_seq L (k + 2) mod 800))" by (rule f32_pos)
  then show ?thesis by (simp add: spawn_def Let_def)
qed

lemma emitLoop_spec:
  "length (snd (emitLoop L x y i (k, pool))) = length pool
   \<and> deadCount (snd (emitLoop L x y i (k, pool))) = deadCount pool - i
   \<and> fst (emitLoop L x y i (k, pool)) = k + 3 * min i (deadCount pool)
   \<and> (\<forall>j<length pool. pt_age (pool ! j) < pt_life (pool ! j) \<longrightarrow>
         snd (emitLoop L x y i (k, pool)) ! j = pool ! j)"
proof (induction i arbitrary: k pool)
  case 0
  then show ?case by simp
next
  case (Suc i)
  show ?case
  proof (cases "findFree pool")
    case None
    then show ?thesis using deadCount_zero [of pool] by simp
  next
    case (Some idx)
    define pool1 where "pool1 = pool[idx := spawn L x y k]"
    have idx: "idx < length pool" "pt_life (pool ! idx) \<le> pt_age (pool ! idx)"
      using findFree_Some [OF Some] by simp_all
    have dc: "Suc (deadCount pool1) = deadCount pool"
      unfolding pool1_def by (rule deadCount_fill [OF idx spawn_live])
    have step: "emitLoop L x y (Suc i) (k, pool) = emitLoop L x y i (k + 3, pool1)"
      using Some by (simp add: pool1_def)
    have len: "length pool1 = length pool" by (simp add: pool1_def)
    have keep: "pool1 ! j = pool ! j \<and> pt_age (pool1 ! j) < pt_life (pool1 ! j)"
      if "j < length pool" "pt_age (pool ! j) < pt_life (pool ! j)" for j
    proof -
      have "j \<noteq> idx" using that idx by auto
      then show ?thesis using that by (simp add: pool1_def)
    qed
    note ih = Suc.IH [of "k + 3" pool1]
    have 1: "length (snd (emitLoop L x y (Suc i) (k, pool))) = length pool"
      using ih len step by simp
    have 2: "deadCount (snd (emitLoop L x y (Suc i) (k, pool))) = deadCount pool - Suc i"
      using ih dc step by simp
    have 3: "fst (emitLoop L x y (Suc i) (k, pool)) = k + 3 * min (Suc i) (deadCount pool)"
      using ih dc step by (simp add: min_def) 
    have 4: "\<forall>j<length pool. pt_age (pool ! j) < pt_life (pool ! j) \<longrightarrow>
         snd (emitLoop L x y (Suc i) (k, pool)) ! j = pool ! j"
      using ih keep len step by simp
    show ?thesis using 1 2 3 4 by blast
  qed
qed

text \<open>
  C5. For every call \<^verbatim>\<open>emit(x, y, N)\<close> on a pool with \<open>F\<close> dead slots, \<open>F < N\<close>, exactly \<open>F\<close>
  particles become live: afterwards no slot is dead, the live slots of before are as they
  were, and \<^verbatim>\<open>rand()\<close> was called for \<open>F\<close> particles only, the other \<open>N - F\<close> requests being
  dropped. A pool with no dead slot is left as it is, and no call changes the length of
  the pool.
\<close>

theorem emit_fills_dead_slots:
  "length (snd (emit L x y n (k, pool))) = length pool
   \<and> (int (deadCount pool) < n \<longrightarrow>
        liveCount (snd (emit L x y n (k, pool))) = liveCount pool + deadCount pool
        \<and> deadCount (snd (emit L x y n (k, pool))) = 0
        \<and> fst (emit L x y n (k, pool)) = k + 3 * deadCount pool
        \<and> (\<forall>j<length pool. pt_age (pool ! j) < pt_life (pool ! j) \<longrightarrow>
              snd (emit L x y n (k, pool)) ! j = pool ! j))
   \<and> (deadCount pool = 0 \<longrightarrow> emit L x y n (k, pool) = (k, pool))"
proof -
  note s = emitLoop_spec [of L x y "nat n" k pool]
  have 1: "length (snd (emit L x y n (k, pool))) = length pool"
    using s by (simp add: emit_def)
  have 2: "liveCount (snd (emit L x y n (k, pool))) = liveCount pool + deadCount pool
        \<and> deadCount (snd (emit L x y n (k, pool))) = 0
        \<and> fst (emit L x y n (k, pool)) = k + 3 * deadCount pool
        \<and> (\<forall>j<length pool. pt_age (pool ! j) < pt_life (pool ! j) \<longrightarrow>
              snd (emit L x y n (k, pool)) ! j = pool ! j)"
    if "int (deadCount pool) < n"
  proof -
    have lt: "deadCount pool < nat n" using that by linarith
    have d0: "deadCount (snd (emit L x y n (k, pool))) = 0"
      using s lt by (simp add: emit_def)
    have "liveCount (snd (emit L x y n (k, pool))) + deadCount (snd (emit L x y n (k, pool)))
        = liveCount pool + deadCount pool"
      using 1 by (simp add: live_dead_count)
    then have l: "liveCount (snd (emit L x y n (k, pool))) = liveCount pool + deadCount pool"
      using d0 by simp
    have f: "fst (emit L x y n (k, pool)) = k + 3 * deadCount pool"
      using s lt by (simp add: emit_def min_def)
    show ?thesis using d0 l f s by (simp add: emit_def)
  qed
  have 3: "emit L x y n (k, pool) = (k, pool)" if "deadCount pool = 0"
  proof (cases "nat n")
    case 0
    then show ?thesis by (simp add: emit_def)
  next
    case (Suc m)
    then show ?thesis using that deadCount_zero [of pool] by (simp add: emit_def)
  qed
  show ?thesis using 1 2 3 by blast
qed

theorem emit_fills_dead_slots_witness:
  "int (deadCount pool3) < 5
   \<and> length (snd (emit libc0 7 9 5 (0, pool3))) = 3
   \<and> liveCount (snd (emit libc0 7 9 5 (0, pool3))) = 3
   \<and> deadCount (snd (emit libc0 7 9 5 (0, pool3))) = 0
   \<and> fst (emit libc0 7 9 5 (0, pool3)) = 6
   \<and> snd (emit libc0 7 9 5 (0, pool3)) ! 1 = liveSlot
   \<and> deadCount [liveSlot] = 0
   \<and> emit libc0 7 9 5 (0, [liveSlot]) = (0, [liveSlot])"
proof -
  have d: "deadCount pool3 = 2" "liveCount pool3 = 1" "length pool3 = 3" "pool3 ! 1 = liveSlot"
    "pt_age (pool3 ! 1) < pt_life (pool3 ! 1)"
    by (simp_all add: deadCount_def liveCount_def pool3_def deadSlot_def liveSlot_def)
  have d1: "deadCount [liveSlot] = 0" by (simp add: deadCount_def liveSlot_def)
  show ?thesis
    using emit_fills_dead_slots [of libc0 7 9 5 0 pool3]
      emit_fills_dead_slots [of libc0 7 9 5 0 "[liveSlot]"] d d1
    by simp
qed

section \<open>Resolving a collision\<close>

lemma resolve_missing:
  "colliders wld aid = None \<or> transforms wld aid = None \<or> colliders wld bid = None \<or> transforms wld bid = None
   \<Longrightarrow> resolveCollision aid bid aa bb wld = wld"
  by (auto simp: resolveCollision_def split: option.splits)

lemma resolve_Y:
  assumes "colliders wld aid = Some ac" "transforms wld aid = Some atr"
    "colliders wld bid = Some bc" "transforms wld bid = Some btr"
    "\<not> overlapX aa bb < overlapY aa bb"
  shows "resolveCollision aid bid aa bb wld =
    updPhysics bid (\<lambda>p. (if signOf (deltaY aa bb) < 0 then p\<lparr>onGround := True\<rparr> else p)\<lparr>ph_vy := 0\<rparr>)
      (updPhysics aid (\<lambda>p. (if 0 < signOf (deltaY aa bb) then p\<lparr>onGround := True\<rparr> else p)\<lparr>ph_vy := 0\<rparr>)
        (if \<not> isStatic ac \<and> \<not> isStatic bc then
           addY bid (f32 (f32 (signOf (deltaY aa bb) * overlapY aa bb) * (1 / 2)))
             (subY aid (f32 (f32 (signOf (deltaY aa bb) * overlapY aa bb) * (1 / 2))) wld)
         else if \<not> isStatic ac then subY aid (f32 (signOf (deltaY aa bb) * overlapY aa bb)) wld
         else if \<not> isStatic bc then addY bid (f32 (signOf (deltaY aa bb) * overlapY aa bb)) wld
         else wld))"
  using assms by (simp add: resolveCollision_def Let_def)

lemma resolve_X:
  assumes "colliders wld aid = Some ac" "transforms wld aid = Some atr"
    "colliders wld bid = Some bc" "transforms wld bid = Some btr"
    "overlapX aa bb < overlapY aa bb"
  shows "resolveCollision aid bid aa bb wld =
    updPhysics bid (\<lambda>p. p\<lparr>ph_vx := 0\<rparr>)
      (updPhysics aid (\<lambda>p. p\<lparr>ph_vx := 0\<rparr>)
        (if \<not> isStatic ac \<and> \<not> isStatic bc then
           addX bid (f32 (f32 (signOf (deltaX aa bb) * overlapX aa bb) * (1 / 2)))
             (subX aid (f32 (f32 (signOf (deltaX aa bb) * overlapX aa bb) * (1 / 2))) wld)
         else if \<not> isStatic ac then subX aid (f32 (signOf (deltaX aa bb) * overlapX aa bb)) wld
         else if \<not> isStatic bc then addX bid (f32 (signOf (deltaX aa bb) * overlapX aa bb)) wld
         else wld))"
  using assms by (simp add: resolveCollision_def Let_def)

lemma ground_fields:
  "ph_vx ((if c then p\<lparr>onGround := True\<rparr> else p)\<lparr>ph_vy := 0\<rparr>) = ph_vx p"
  "ph_vy ((if c then p\<lparr>onGround := True\<rparr> else p)\<lparr>ph_vy := 0\<rparr>) = 0"
  by simp_all

lemma signOf_pos: "0 < signOf d \<longleftrightarrow> 0 < d"
  by (simp add: signOf_def)

lemma signOf_neg: "signOf d < 0 \<longleftrightarrow> \<not> 0 < d"
  by (simp add: signOf_def)

lemma move_physics:
  "physics (subX i v wld) = physics wld" "physics (addX i v wld) = physics wld"
  "physics (subY i v wld) = physics wld" "physics (addY i v wld) = physics wld"
  by (simp_all add: move_defs updTransform_fields)

lemma move_colliders:
  "colliders (subX i v wld) = colliders wld" "colliders (addX i v wld) = colliders wld"
  "colliders (subY i v wld) = colliders wld" "colliders (addY i v wld) = colliders wld"
  by (simp_all add: move_defs updTransform_fields)

lemma resolve_colliders: "colliders (resolveCollision a b aa bb wld) = colliders wld"
  by (simp add: resolveCollision_def Let_def updPhysics_fields updTransform_fields move_defs
      split: option.splits)

lemma resolve_transform_dom:
  "(transforms (resolveCollision a b aa bb wld) j = None) = (transforms wld j = None)"
  by (simp add: resolveCollision_def Let_def updPhysics_fields updTransform_fields move_defs
      split: option.splits)

lemma resolve_hasBox: "hasBox (resolveCollision a b aa bb wld) j = hasBox wld j"
  by (simp add: hasBox_def resolve_colliders resolve_transform_dom)

lemma collideWith_hasBox: "hasBox (collideWith a aa bs wld) j = hasBox wld j"
  by (induction bs arbitrary: wld) (simp_all add: resolve_hasBox split: option.splits)

lemma resolve_onGround:
  assumes "hasBox wld a" "hasBox wld b"
  shows "map_option onGround (physics (resolveCollision a b aa bb wld) i) =
    map_option (\<lambda>q. onGround q \<or> setsGround i (a, b, aa, bb)) (physics wld i)"
proof -
  obtain ac atr bc btr where c: "colliders wld a = Some ac" "transforms wld a = Some atr"
    "colliders wld b = Some bc" "transforms wld b = Some btr"
    using assms by (auto simp: hasBox_def)
  show ?thesis
  proof (cases "overlapX aa bb < overlapY aa bb")
    case True
    show ?thesis unfolding resolve_X [OF c True] using True
      by (auto simp: updPhysics_fields move_physics option.map_comp comp_def setsGround_def)
  next
    case False
    show ?thesis unfolding resolve_Y [OF c False] using False
      by (cases "0 < deltaY aa bb")
        (auto simp: updPhysics_fields move_physics option.map_comp comp_def signOf_def setsGround_def)
  qed
qed

lemma collideWith_fold:
  "collideWith a aa bs wld = foldl applyContact wld (contactsWith a aa bs wld)"
  by (induction bs arbitrary: wld) (simp_all add: applyContact_def split: option.splits)

lemma collidePairs_fold:
  "collidePairs ids wld = foldl applyContact wld (contactsOf ids wld)"
  by (induction ids arbitrary: wld) (simp_all add: collideWith_fold split: option.splits)

lemma contactsWith_sound:
  "c \<in> set (contactsWith a aa bs wld) \<Longrightarrow>
     \<exists>b bb. c = (a, b, aa, bb) \<and> b \<in> set bs \<and> aabbIntersect aa bb \<and> hasBox wld b"
proof (induction bs arbitrary: wld)
  case Nil
  then show ?case by simp
next
  case (Cons b bs)
  show ?case
  proof (cases "\<exists>bc btr. colliders wld b = Some bc \<and> transforms wld b = Some btr")
    case False
    then have "contactsWith a aa (b # bs) wld = contactsWith a aa bs wld"
      by (auto split: option.splits)
    then show ?thesis using Cons by fastforce
  next
    case True
    then obtain bc btr where c: "colliders wld b = Some bc" "transforms wld b = Some btr" by blast
    have hb: "hasBox wld b" using c by (simp add: hasBox_def)
    show ?thesis
    proof (cases "aabbIntersect aa (mkAABB btr bc)")
      case False
      then have "contactsWith a aa (b # bs) wld = contactsWith a aa bs wld"
        using c by simp
      then show ?thesis using Cons by fastforce
    next
      case True
      then have "c = (a, b, aa, mkAABB btr bc)
          \<or> c \<in> set (contactsWith a aa bs (resolveCollision a b aa (mkAABB btr bc) wld))"
        using Cons.prems c by simp
      then show ?thesis
      proof
        assume "c = (a, b, aa, mkAABB btr bc)"
        then show ?thesis using True hb by simp
      next
        assume "c \<in> set (contactsWith a aa bs (resolveCollision a b aa (mkAABB btr bc) wld))"
        from Cons.IH [OF this] show ?thesis by (auto simp: resolve_hasBox)
      qed
    qed
  qed
qed

lemma contactsOf_sound:
  "c \<in> set (contactsOf ids wld) \<Longrightarrow>
     \<exists>a b aa bb. c = (a, b, aa, bb) \<and> a \<in> set ids \<and> b \<in> set ids \<and> aabbIntersect aa bb
       \<and> hasBox wld a \<and> hasBox wld b"
proof (induction ids arbitrary: wld)
  case Nil
  then show ?case by simp
next
  case (Cons a rest)
  show ?case
  proof (cases "\<exists>ac atr. colliders wld a = Some ac \<and> transforms wld a = Some atr")
    case False
    then have "contactsOf (a # rest) wld = contactsOf rest wld"
      by (auto split: option.splits)
    then show ?thesis using Cons by fastforce
  next
    case True
    then obtain ac atr where c: "colliders wld a = Some ac" "transforms wld a = Some atr" by blast
    have ha: "hasBox wld a" using c by (simp add: hasBox_def)
    have "c \<in> set (contactsWith a (mkAABB atr ac) rest wld)
        \<or> c \<in> set (contactsOf rest (collideWith a (mkAABB atr ac) rest wld))"
      using Cons.prems c by simp
    then show ?thesis
    proof
      assume "c \<in> set (contactsWith a (mkAABB atr ac) rest wld)"
      from contactsWith_sound [OF this] show ?thesis using ha by auto
    next
      assume "c \<in> set (contactsOf rest (collideWith a (mkAABB atr ac) rest wld))"
      from Cons.IH [OF this] show ?thesis by (auto simp: collideWith_hasBox)
    qed
  qed
qed

lemma fold_onGround:
  "\<forall>c\<in>set cs. hasBox wld (fst c) \<and> hasBox wld (fst (snd c)) \<Longrightarrow>
     map_option onGround (physics (foldl applyContact wld cs) i) =
       map_option (\<lambda>q. onGround q \<or> (\<exists>c\<in>set cs. setsGround i c)) (physics wld i)"
proof (induction cs arbitrary: wld)
  case Nil
  then show ?case by (simp add: option.map_ident)
next
  case (Cons c cs)
  obtain a b aa bb where c: "c = (a, b, aa, bb)" by (cases c) auto
  have h: "hasBox wld a" "hasBox wld b" using Cons.prems c by simp_all
  define w1 where "w1 = resolveCollision a b aa bb wld"
  have p: "\<forall>c\<in>set cs. hasBox w1 (fst c) \<and> hasBox w1 (fst (snd c))"
    using Cons.prems by (simp add: w1_def resolve_hasBox)
  have s1: "map_option onGround (physics w1 i) =
      map_option (\<lambda>q. onGround q \<or> setsGround i c) (physics wld i)"
    unfolding w1_def c by (rule resolve_onGround [OF h])
  have "map_option onGround (physics (foldl applyContact w1 cs) i) =
      map_option (\<lambda>q. onGround q \<or> (\<exists>c\<in>set cs. setsGround i c)) (physics w1 i)"
    by (rule Cons.IH [OF p])
  then have "map_option onGround (physics (foldl applyContact w1 cs) i) =
      map_option (\<lambda>q. onGround q \<or> (\<exists>c\<in>set (c # cs). setsGround i c)) (physics wld i)"
    using s1 by (cases "physics w1 i"; cases "physics wld i") auto
  moreover have "applyContact wld c = w1" by (simp add: applyContact_def c w1_def)
  ultimately show ?case by (simp only: foldl_Cons)
qed

lemma pass_onGround:
  "map_option onGround (physics (collisionSolve wld) i) =
     map_option (\<lambda>q. onGround q \<or> (\<exists>c\<in>set (passContacts wld). setsGround i c)) (physics wld i)"
proof -
  have "\<forall>c\<in>set (passContacts wld). hasBox wld (fst c) \<and> hasBox wld (fst (snd c))"
    using contactsOf_sound [of _ "entities wld" wld] by (fastforce simp: passContacts_def)
  from fold_onGround [OF this] show ?thesis
    by (simp add: collisionSolve_def collidePairs_fold passContacts_def)
qed

text \<open>
  C1, the claim as stated fails. Two dynamic boxes of side 2 at (1, 1) and (2, 2) intersect
  with overlap 1 on both axes; \<^verbatim>\<open>resolveCollision\<close>, and the whole pass, move them apart on
  Y (to 1/2 and 5/2), keep both \<^verbatim>\<open>x\<close> and both \<^verbatim>\<open>vx\<close>, and set \<^verbatim>\<open>vy\<close> to zero.
\<close>

theorem tie_resolves_on_Y_not_X:
  "boxA = mkAABB (posAt 1 1) dynBox \<and> boxB = mkAABB (posAt 2 2) dynBox
   \<and> aabbIntersect boxA boxB \<and> overlapX boxA boxB = overlapY boxA boxB
   \<and> transforms (resolveCollision 1 2 boxA boxB tieWorld) 1 = Some (posAt 1 (1 / 2))
   \<and> transforms (resolveCollision 1 2 boxA boxB tieWorld) 2 = Some (posAt 2 (5 / 2))
   \<and> physics (resolveCollision 1 2 boxA boxB tieWorld) 1 = Some (moving\<lparr>ph_vy := 0, onGround := True\<rparr>)
   \<and> physics (resolveCollision 1 2 boxA boxB tieWorld) 2 = Some (moving\<lparr>ph_vy := 0\<rparr>)
   \<and> transforms (collisionSolve tieWorld) 1 = Some (posAt 1 (1 / 2))
   \<and> physics (collisionSolve tieWorld) 1 = Some (moving\<lparr>ph_vy := 0, onGround := True\<rparr>)"
  by code_simp

text \<open>
  C1 (as amended). For two colliding entities whose X overlap equals their Y overlap,
  \<^verbatim>\<open>overlapX < overlapY\<close> is false and \<^verbatim>\<open>resolveCollision\<close> takes the Y branch: no \<^verbatim>\<open>x\<close> and
  no \<^verbatim>\<open>vx\<close> changes, \<^verbatim>\<open>vy\<close> is set to zero on both physics components, the \<^verbatim>\<open>y\<close>
  positions take the correction (half each when both are dynamic, all of it on the
  dynamic one when the other is static, none when both are static), the ground flag of the
  first entity is set when \<^verbatim>\<open>dy > 0\<close> and that of the second when \<^verbatim>\<open>dy <= 0\<close>, a flag is
  never cleared, and no other entity is touched.
\<close>

theorem tie_resolves_on_Y:
  assumes tie: "overlapX aa bb = overlapY aa bb"
    and ca: "colliders wld aid = Some ac" and ta: "transforms wld aid = Some atr"
    and cb: "colliders wld bid = Some bc" and tb: "transforms wld bid = Some btr"
    and ne: "aid \<noteq> bid"
  shows "(\<forall>i. map_option tr_x (transforms (resolveCollision aid bid aa bb wld) i) = map_option tr_x (transforms wld i))
    \<and> (\<forall>i. map_option ph_vx (physics (resolveCollision aid bid aa bb wld) i) = map_option ph_vx (physics wld i))
    \<and> map_option ph_vy (physics (resolveCollision aid bid aa bb wld) aid) = map_option (\<lambda>p. 0) (physics wld aid)
    \<and> map_option ph_vy (physics (resolveCollision aid bid aa bb wld) bid) = map_option (\<lambda>p. 0) (physics wld bid)
    \<and> map_option tr_y (transforms (resolveCollision aid bid aa bb wld) aid) =
        Some (if isStatic ac then tr_y atr
              else if isStatic bc then f32 (tr_y atr - f32 (signOf (deltaY aa bb) * overlapY aa bb))
              else f32 (tr_y atr - f32 (f32 (signOf (deltaY aa bb) * overlapY aa bb) * (1 / 2))))
    \<and> map_option tr_y (transforms (resolveCollision aid bid aa bb wld) bid) =
        Some (if isStatic bc then tr_y btr
              else if isStatic ac then f32 (tr_y btr + f32 (signOf (deltaY aa bb) * overlapY aa bb))
              else f32 (tr_y btr + f32 (f32 (signOf (deltaY aa bb) * overlapY aa bb) * (1 / 2))))
    \<and> map_option onGround (physics (resolveCollision aid bid aa bb wld) aid) =
        map_option (\<lambda>p. onGround p \<or> 0 < deltaY aa bb) (physics wld aid)
    \<and> map_option onGround (physics (resolveCollision aid bid aa bb wld) bid) =
        map_option (\<lambda>p. onGround p \<or> \<not> 0 < deltaY aa bb) (physics wld bid)
    \<and> (\<forall>i. i \<noteq> aid \<and> i \<noteq> bid \<longrightarrow>
          physics (resolveCollision aid bid aa bb wld) i = physics wld i
          \<and> transforms (resolveCollision aid bid aa bb wld) i = transforms wld i)"
proof -
  have nlt: "\<not> overlapX aa bb < overlapY aa bb" using tie by simp
  note r = resolve_Y [OF ca ta cb tb nlt]
  have old: "(\<forall>i. map_option tr_x (transforms (resolveCollision aid bid aa bb wld) i) = map_option tr_x (transforms wld i))
    \<and> (\<forall>i. map_option ph_vx (physics (resolveCollision aid bid aa bb wld) i) = map_option ph_vx (physics wld i))
    \<and> map_option ph_vy (physics (resolveCollision aid bid aa bb wld) aid) = map_option (\<lambda>p. 0) (physics wld aid)
    \<and> map_option ph_vy (physics (resolveCollision aid bid aa bb wld) bid) = map_option (\<lambda>p. 0) (physics wld bid)
    \<and> map_option tr_y (transforms (resolveCollision aid bid aa bb wld) aid) =
        Some (if isStatic ac then tr_y atr
              else if isStatic bc then f32 (tr_y atr - f32 (signOf (deltaY aa bb) * overlapY aa bb))
              else f32 (tr_y atr - f32 (f32 (signOf (deltaY aa bb) * overlapY aa bb) * (1 / 2))))
    \<and> map_option tr_y (transforms (resolveCollision aid bid aa bb wld) bid) =
        Some (if isStatic bc then tr_y btr
              else if isStatic ac then f32 (tr_y btr + f32 (signOf (deltaY aa bb) * overlapY aa bb))
              else f32 (tr_y btr + f32 (f32 (signOf (deltaY aa bb) * overlapY aa bb) * (1 / 2))))"
    unfolding r using ca ta cb tb ne
    by (simp add: updPhysics_fields updTransform_fields move_defs option.map_comp comp_def
        ground_fields)
  have hb: "hasBox wld aid" "hasBox wld bid" using ca ta cb tb by (simp_all add: hasBox_def)
  have ga: "map_option onGround (physics (resolveCollision aid bid aa bb wld) aid) =
        map_option (\<lambda>p. onGround p \<or> 0 < deltaY aa bb) (physics wld aid)"
    using resolve_onGround [OF hb, of aa bb aid] nlt ne by (simp add: setsGround_def)
  have gb: "map_option onGround (physics (resolveCollision aid bid aa bb wld) bid) =
        map_option (\<lambda>p. onGround p \<or> \<not> 0 < deltaY aa bb) (physics wld bid)"
    using resolve_onGround [OF hb, of aa bb bid] nlt ne by (simp add: setsGround_def)
  have oth: "\<forall>i. i \<noteq> aid \<and> i \<noteq> bid \<longrightarrow>
          physics (resolveCollision aid bid aa bb wld) i = physics wld i
          \<and> transforms (resolveCollision aid bid aa bb wld) i = transforms wld i"
    unfolding r by (simp add: updPhysics_fields updTransform_fields move_defs)
  show ?thesis using old ga gb oth by blast
qed

theorem tie_resolves_on_Y_witness:
  "overlapX boxA boxB = overlapY boxA boxB
   \<and> colliders tieWorld 1 = Some dynBox \<and> transforms tieWorld 1 = Some (posAt 1 1)
   \<and> colliders tieWorld 2 = Some dynBox \<and> transforms tieWorld 2 = Some (posAt 2 2)
   \<and> (1 :: int) \<noteq> 2
   \<and> map_option tr_x (transforms (resolveCollision 1 2 boxA boxB tieWorld) 1) = Some 1
   \<and> map_option ph_vx (physics (resolveCollision 1 2 boxA boxB tieWorld) 1) = Some 5
   \<and> map_option ph_vy (physics (resolveCollision 1 2 boxA boxB tieWorld) 1) = Some 0
   \<and> map_option tr_y (transforms (resolveCollision 1 2 boxA boxB tieWorld) 1) = Some (1 / 2)
   \<and> map_option tr_y (transforms (resolveCollision 1 2 boxA boxB tieWorld) 2) = Some (5 / 2)
   \<and> map_option onGround (physics (resolveCollision 1 2 boxA boxB tieWorld) 1) = Some True
   \<and> map_option onGround (physics (resolveCollision 1 2 boxA boxB tieWorld) 2) = Some False"
proof -
  have h1: "overlapX boxA boxB = overlapY boxA boxB" by code_simp
  have h2: "colliders tieWorld 1 = Some dynBox" by (simp add: tieWorld_def)
  have h3: "transforms tieWorld 1 = Some (posAt 1 1)" by (simp add: tieWorld_def)
  have h4: "colliders tieWorld 2 = Some dynBox" by (simp add: tieWorld_def)
  have h5: "transforms tieWorld 2 = Some (posAt 2 2)" by (simp add: tieWorld_def)
  have h6: "(1 :: int) \<noteq> 2" by simp
  have v1: "f32 (tr_y (posAt 1 1) - f32 (f32 (signOf (deltaY boxA boxB) * overlapY boxA boxB) * (1 / 2))) = 1 / 2"
    by code_simp
  have v2: "f32 (tr_y (posAt 2 2) + f32 (f32 (signOf (deltaY boxA boxB) * overlapY boxA boxB) * (1 / 2))) = 5 / 2"
    by code_simp
  have ns: "\<not> isStatic dynBox" by (simp add: dynBox_def)
  have p: "physics tieWorld 1 = Some moving" by (simp add: tieWorld_def)
  have px: "map_option ph_vx (physics tieWorld 1) = Some 5" by (simp add: tieWorld_def moving_def)
  have py: "map_option (\<lambda>p. 0 :: rat) (physics tieWorld 1) = Some 0" by (simp add: tieWorld_def)
  have tx: "map_option tr_x (transforms tieWorld 1) = Some 1" by (simp add: tieWorld_def posAt_def)
  note t = tie_resolves_on_Y [OF h1 h2 h3 h4 h5 h6]
  have c1: "map_option tr_x (transforms (resolveCollision 1 2 boxA boxB tieWorld) 1) = Some 1"
    using t tx by simp
  have c2: "map_option ph_vx (physics (resolveCollision 1 2 boxA boxB tieWorld) 1) = Some 5"
    using t px by simp
  have c3: "map_option ph_vy (physics (resolveCollision 1 2 boxA boxB tieWorld) 1) = Some 0"
    using t py by simp
  have c4: "map_option tr_y (transforms (resolveCollision 1 2 boxA boxB tieWorld) 1) = Some (1 / 2)"
    using t by (simp only: ns if_False v1)
  have c5: "map_option tr_y (transforms (resolveCollision 1 2 boxA boxB tieWorld) 2) = Some (5 / 2)"
    using t by (simp only: ns if_False v2)
  have dy: "0 < deltaY boxA boxB" by code_simp
  have g: "map_option (\<lambda>p. onGround p \<or> 0 < deltaY boxA boxB) (physics tieWorld 1) = Some True"
    "map_option (\<lambda>p. onGround p \<or> \<not> 0 < deltaY boxA boxB) (physics tieWorld 2) = Some False"
    using dy by (simp_all add: tieWorld_def moving_def)
  have c6: "map_option onGround (physics (resolveCollision 1 2 boxA boxB tieWorld) 1) = Some True"
    using t g(1) by simp
  have c7: "map_option onGround (physics (resolveCollision 1 2 boxA boxB tieWorld) 2) = Some False"
    using t g(2) by simp
  show ?thesis
    using h1 h2 h3 h4 h5 h6 c1 c2 c3 c4 c5 c6 c7 by blast
qed

text \<open>
  C7. When both colliders are static, \<^verbatim>\<open>resolveCollision\<close> leaves every transform as it is
  and still sets the velocity of the resolved axis to zero on the physics component of
  either entity, when it has one: \<^verbatim>\<open>vx\<close> when \<^verbatim>\<open>overlapX < overlapY\<close>, \<^verbatim>\<open>vy\<close> otherwise.
\<close>

theorem static_pair_keeps_positions:
  assumes ca: "colliders wld aid = Some ac" and ta: "transforms wld aid = Some atr"
    and cb: "colliders wld bid = Some bc" and tb: "transforms wld bid = Some btr"
    and sa: "isStatic ac" and sb: "isStatic bc"
  shows "transforms (resolveCollision aid bid aa bb wld) = transforms wld
    \<and> (\<forall>i. i \<noteq> aid \<and> i \<noteq> bid \<longrightarrow> physics (resolveCollision aid bid aa bb wld) i = physics wld i)
    \<and> (overlapX aa bb < overlapY aa bb \<longrightarrow>
          map_option ph_vx (physics (resolveCollision aid bid aa bb wld) aid) = map_option (\<lambda>p. 0) (physics wld aid)
          \<and> map_option ph_vx (physics (resolveCollision aid bid aa bb wld) bid) = map_option (\<lambda>p. 0) (physics wld bid))
    \<and> (\<not> overlapX aa bb < overlapY aa bb \<longrightarrow>
          map_option ph_vy (physics (resolveCollision aid bid aa bb wld) aid) = map_option (\<lambda>p. 0) (physics wld aid)
          \<and> map_option ph_vy (physics (resolveCollision aid bid aa bb wld) bid) = map_option (\<lambda>p. 0) (physics wld bid))"
proof (cases "overlapX aa bb < overlapY aa bb")
  case True
  show ?thesis
    unfolding resolve_X [OF ca ta cb tb True] using sa sb True
    by (auto simp: updPhysics_fields option.map_comp comp_def)
next
  case False
  show ?thesis
    unfolding resolve_Y [OF ca ta cb tb False] using sa sb False
    by (auto simp: updPhysics_fields option.map_comp comp_def ground_fields)
qed

theorem static_pair_keeps_positions_witness:
  "colliders staticWorld 1 = Some statBox \<and> transforms staticWorld 1 = Some (posAt 1 1)
   \<and> colliders staticWorld 2 = Some statBox \<and> transforms staticWorld 2 = Some (posAt (5 / 2) (3 / 2))
   \<and> isStatic statBox \<and> overlapX boxA boxC < overlapY boxA boxC
   \<and> transforms (resolveCollision 1 2 boxA boxC staticWorld) = transforms staticWorld
   \<and> map_option ph_vx (physics (resolveCollision 1 2 boxA boxC staticWorld) 1) = Some 0
   \<and> map_option ph_vx (physics (resolveCollision 1 2 boxA boxC staticWorld) 2) = Some 0"
proof -
  have h1: "colliders staticWorld 1 = Some statBox" by (simp add: staticWorld_def)
  have h2: "transforms staticWorld 1 = Some (posAt 1 1)" by (simp add: staticWorld_def)
  have h3: "colliders staticWorld 2 = Some statBox" by (simp add: staticWorld_def)
  have h4: "transforms staticWorld 2 = Some (posAt (5 / 2) (3 / 2))" by (simp add: staticWorld_def)
  have h5: "isStatic statBox" by (simp add: statBox_def)
  have lt: "overlapX boxA boxC < overlapY boxA boxC" by code_simp
  have p1: "map_option (\<lambda>p. 0 :: rat) (physics staticWorld 1) = Some 0" by (simp add: staticWorld_def)
  have p2: "map_option (\<lambda>p. 0 :: rat) (physics staticWorld 2) = Some 0" by (simp add: staticWorld_def)
  note t = static_pair_keeps_positions [OF h1 h2 h3 h4 h5 h5, of boxA boxC]
  have c1: "transforms (resolveCollision 1 2 boxA boxC staticWorld) = transforms staticWorld"
    using t by blast
  have c2: "map_option ph_vx (physics (resolveCollision 1 2 boxA boxC staticWorld) 1) = Some 0"
    using t lt p1 by simp
  have c3: "map_option ph_vx (physics (resolveCollision 1 2 boxA boxC staticWorld) 2) = Some 0"
    using t lt p2 by simp
  show ?thesis using h1 h2 h3 h4 h5 lt c1 c2 c3 by blast
qed

lemma contactsWith_none:
  "\<forall>b\<in>set bs. \<forall>bb. boxOf wld b = Some bb \<longrightarrow> \<not> aabbIntersect aa bb \<Longrightarrow>
     contactsWith a aa bs wld = []"
  by (induction bs) (auto simp: boxOf_def split: option.splits)

lemma contactsOf_none:
  "\<forall>k l. k < l \<and> l < length ids \<longrightarrow>
      (\<forall>aa bb. boxOf wld (ids ! k) = Some aa \<and> boxOf wld (ids ! l) = Some bb \<longrightarrow> \<not> aabbIntersect aa bb)
   \<Longrightarrow> contactsOf ids wld = []"
proof (induction ids)
  case Nil
  then show ?case by simp
next
  case (Cons a rest)
  have tl: "\<forall>k l. k < l \<and> l < length rest \<longrightarrow>
      (\<forall>aa bb. boxOf wld (rest ! k) = Some aa \<and> boxOf wld (rest ! l) = Some bb \<longrightarrow> \<not> aabbIntersect aa bb)"
  proof (intro allI impI)
    fix k l aa bb
    assume kl: "k < l \<and> l < length rest"
      and b: "boxOf wld (rest ! k) = Some aa \<and> boxOf wld (rest ! l) = Some bb"
    have "Suc k < Suc l \<and> Suc l < length (a # rest)" using kl by simp
    with Cons.prems b show "\<not> aabbIntersect aa bb"
      by (metis nth_Cons_Suc)
  qed
  have rest: "contactsOf rest wld = []" by (rule Cons.IH [OF tl])
  show ?case
  proof (cases "boxOf wld a")
    case None
    then have "contactsOf (a # rest) wld = contactsOf rest wld"
      by (auto simp: boxOf_def split: option.splits)
    then show ?thesis using rest by simp
  next
    case (Some aa)
    then obtain ac atr where c: "colliders wld a = Some ac" "transforms wld a = Some atr"
      "aa = mkAABB atr ac"
      by (auto simp: boxOf_def split: option.splits)
    have "\<forall>b\<in>set rest. \<forall>bb. boxOf wld b = Some bb \<longrightarrow> \<not> aabbIntersect aa bb"
    proof (intro ballI allI impI)
      fix b bb
      assume "b \<in> set rest" and bb: "boxOf wld b = Some bb"
      then obtain m where m: "m < length rest" "rest ! m = b" by (auto simp: in_set_conv_nth)
      have "0 < Suc m \<and> Suc m < length (a # rest)" using m by simp
      moreover have "boxOf wld ((a # rest) ! 0) = Some aa \<and> boxOf wld ((a # rest) ! Suc m) = Some bb"
        using Some bb m by simp
      ultimately show "\<not> aabbIntersect aa bb" using Cons.prems by blast
    qed
    then have w: "contactsWith a aa rest wld = []" by (rule contactsWith_none)
    then have "collideWith a aa rest wld = wld" by (simp add: collideWith_fold)
    then show ?thesis using c w rest by simp
  qed
qed

text \<open>
  C2, the claim as stated fails. A body in the air with its ground flag set, 100 above a
  static floor: its box does not intersect the floor's, the pass resolves nothing, and
  after the pass the flag is still set.
\<close>

theorem grounded_flag_survives_pass:
  "physics airWorld 1 = Some grounded \<and> onGround grounded
   \<and> \<not> aabbIntersect (mkAABB (posAt 0 0) dynBox) (mkAABB (posAt 0 100) floorBox)
   \<and> transforms (collisionSolve airWorld) 1 = Some (posAt 0 0)
   \<and> physics (collisionSolve airWorld) 1 = Some grounded"
  by code_simp

text \<open>
  C2 (as amended). The pass does not reset \<^verbatim>\<open>onGround\<close>. After \<^verbatim>\<open>collisionSolve\<close> the flag of a
  body is true exactly when it was true before the pass or the body received a
  downward-facing contact during the pass, that is, one of the resolutions the pass made
  was on Y with the body as first entity and \<^verbatim>\<open>dy > 0\<close> or as second entity and
  \<^verbatim>\<open>dy <= 0\<close>. The pass is the sequence of its resolutions, each between two entities of the
  store with collider and transform whose boxes intersected; when no two boxes of the
  store intersect the pass makes none and leaves the world as it is.
\<close>

theorem onGround_after_pass:
  "map_option onGround (physics (collisionSolve wld) i) =
     map_option (\<lambda>q. onGround q \<or> (\<exists>c\<in>set (passContacts wld). setsGround i c)) (physics wld i)
   \<and> collisionSolve wld = foldl applyContact wld (passContacts wld)
   \<and> (\<forall>c\<in>set (passContacts wld). \<exists>a b aa bb. c = (a, b, aa, bb)
        \<and> a \<in> set (entities wld) \<and> b \<in> set (entities wld) \<and> aabbIntersect aa bb
        \<and> hasBox wld a \<and> hasBox wld b)
   \<and> ((\<forall>k l. k < l \<and> l < length (entities wld) \<longrightarrow>
          (\<forall>aa bb. boxOf wld (entities wld ! k) = Some aa \<and> boxOf wld (entities wld ! l) = Some bb
             \<longrightarrow> \<not> aabbIntersect aa bb)) \<longrightarrow>
        passContacts wld = [] \<and> collisionSolve wld = wld)
   \<and> (hasBox wld a \<and> hasBox wld b \<longrightarrow>
        map_option onGround (physics (resolveCollision a b aa bb wld) i) =
          map_option (\<lambda>q. onGround q \<or> setsGround i (a, b, aa, bb)) (physics wld i))"
proof -
  have 2: "collisionSolve wld = foldl applyContact wld (passContacts wld)"
    by (simp add: collisionSolve_def collidePairs_fold passContacts_def)
  have 3: "\<forall>c\<in>set (passContacts wld). \<exists>a b aa bb. c = (a, b, aa, bb)
        \<and> a \<in> set (entities wld) \<and> b \<in> set (entities wld) \<and> aabbIntersect aa bb
        \<and> hasBox wld a \<and> hasBox wld b"
    using contactsOf_sound [of _ "entities wld" wld] by (auto simp: passContacts_def)
  have 4: "passContacts wld = [] \<and> collisionSolve wld = wld"
    if "\<forall>k l. k < l \<and> l < length (entities wld) \<longrightarrow>
          (\<forall>aa bb. boxOf wld (entities wld ! k) = Some aa \<and> boxOf wld (entities wld ! l) = Some bb
             \<longrightarrow> \<not> aabbIntersect aa bb)"
  proof -
    have "passContacts wld = []"
      unfolding passContacts_def by (rule contactsOf_none [OF that])
    then show ?thesis using 2 by simp
  qed
  have 5: "map_option onGround (physics (resolveCollision a b aa bb wld) i) =
          map_option (\<lambda>q. onGround q \<or> setsGround i (a, b, aa, bb)) (physics wld i)"
    if "hasBox wld a \<and> hasBox wld b"
    using that resolve_onGround by blast
  show ?thesis using pass_onGround [of wld i] 2 3 4 5 by blast
qed

lemma landWorld_contacts: "passContacts landWorld = [(1, 2, boxP, boxF)]"
  by code_simp

lemma landWorld_sets:
  "setsGround 1 (1, 2, boxP, boxF) \<and> \<not> setsGround 3 (1, 2, boxP, boxF)"
  by code_simp

lemma airWorld_boxes:
  "boxOf airWorld 1 = Some (mkAABB (posAt 0 0) dynBox)
   \<and> boxOf airWorld 2 = Some (mkAABB (posAt 0 100) floorBox)
   \<and> \<not> aabbIntersect (mkAABB (posAt 0 0) dynBox) (mkAABB (posAt 0 100) floorBox)"
  by code_simp

theorem onGround_after_pass_witness:
  "passContacts landWorld = [(1, 2, boxP, boxF)]
   \<and> aabbIntersect boxP boxF \<and> hasBox landWorld 1 \<and> hasBox landWorld 2
   \<and> physics landWorld 1 = Some moving \<and> physics landWorld 3 = Some moving \<and> \<not> onGround moving
   \<and> setsGround 1 (1, 2, boxP, boxF) \<and> \<not> setsGround 3 (1, 2, boxP, boxF)
   \<and> map_option onGround (physics (collisionSolve landWorld) 1) = Some True
   \<and> map_option onGround (physics (collisionSolve landWorld) 3) = Some False
   \<and> map_option onGround (physics (resolveCollision 1 2 boxP boxF landWorld) 1) = Some True
   \<and> passContacts airWorld = [] \<and> collisionSolve airWorld = airWorld"
proof -
  have h: "physics landWorld 1 = Some moving" "physics landWorld 3 = Some moving" "\<not> onGround moving"
    "hasBox landWorld 1" "hasBox landWorld 2"
    by (simp_all add: landWorld_def moving_def hasBox_def)
  note c = landWorld_contacts
  note s = landWorld_sets
  note t1 = onGround_after_pass [of landWorld 1 1 2 boxP boxF]
  note t3 = onGround_after_pass [of landWorld 3 1 2 boxP boxF]
  have i: "aabbIntersect boxP boxF" using t1 c by auto
  have e1: "map_option onGround (physics (collisionSolve landWorld) 1) =
      map_option (\<lambda>q. onGround q \<or> (\<exists>c\<in>set (passContacts landWorld). setsGround 1 c))
        (physics landWorld 1)"
    using t1 by blast
  have g1: "map_option onGround (physics (collisionSolve landWorld) 1) = Some True"
    unfolding e1 using c s h by simp
  have e3: "map_option onGround (physics (collisionSolve landWorld) 3) =
      map_option (\<lambda>q. onGround q \<or> (\<exists>c\<in>set (passContacts landWorld). setsGround 3 c))
        (physics landWorld 3)"
    using t3 by blast
  have g3: "map_option onGround (physics (collisionSolve landWorld) 3) = Some False"
    unfolding e3 using c s h by simp
  have er: "map_option onGround (physics (resolveCollision 1 2 boxP boxF landWorld) 1) =
      map_option (\<lambda>q. onGround q \<or> setsGround 1 (1, 2, boxP, boxF)) (physics landWorld 1)"
    using t1 h by blast
  have r1: "map_option onGround (physics (resolveCollision 1 2 boxP boxF landWorld) 1) = Some True"
    unfolding er using s h by simp
  have len: "length (entities airWorld) = 2" "entities airWorld ! 0 = 1" "entities airWorld ! 1 = 2"
    by (simp_all add: airWorld_def)
  have air: "\<forall>k l. k < l \<and> l < length (entities airWorld) \<longrightarrow>
          (\<forall>aa bb. boxOf airWorld (entities airWorld ! k) = Some aa
              \<and> boxOf airWorld (entities airWorld ! l) = Some bb \<longrightarrow> \<not> aabbIntersect aa bb)"
  proof (intro allI impI)
    fix k l aa bb
    assume kl: "k < l \<and> l < length (entities airWorld)"
      and b: "boxOf airWorld (entities airWorld ! k) = Some aa
              \<and> boxOf airWorld (entities airWorld ! l) = Some bb"
    have "k = 0" "l = 1" using kl len(1) by auto
    then show "\<not> aabbIntersect aa bb" using b len airWorld_boxes by simp
  qed
  have a: "passContacts airWorld = [] \<and> collisionSolve airWorld = airWorld"
    using onGround_after_pass [of airWorld] air by blast
  show ?thesis using c i h s g1 g3 r1 a by blast
qed

section \<open>Animation\<close>

text \<open>
  C9, the claim as stated fails: with \<^verbatim>\<open>current = -4\<close> and \<^verbatim>\<open>frameCount = 2\<close> the advance
  yields \<^verbatim>\<open>(-4 + 1) % 2 = -1\<close>, outside \<open>[0, 2)\<close>; with \<^verbatim>\<open>current = INT_MAX\<close> the
  increment overflows.
\<close>

theorem advance_negative_index:
  "advanceAnimation 0 anNeg = Inr (anNeg\<lparr>timer := 0, current := - 1\<rparr>)
   \<and> advanceAnimation 0 anMax = Inl SignedOverflow"
  by (simp add: advanceAnimation_def anNeg_def anMax_def f64_0 int_add_def int_rem_def INT_MAX_def INT_MIN_def signed_modulo_int_def)

lemma smod_range: "0 \<le> (c::int) \<Longrightarrow> 0 < d \<Longrightarrow> 0 \<le> c smod d \<and> c smod d < d"
  by (simp add: signed_modulo_int_def sgn_if)

text \<open>
  C9 (as amended). For every \<^verbatim>\<open>Animation\<close> and every \<open>dt\<close> the advance never divides by
  zero, the divisor being \<^verbatim>\<open>max(1, frameCount)\<close>. When \<^verbatim>\<open>current\<close> is below \<^verbatim>\<open>INT_MAX\<close>
  the advance is defined, and when moreover the timer fires and \<^verbatim>\<open>current >= -1\<close> the new
  index lies in \<open>[0, max(1, frameCount))\<close>.
\<close>

theorem advance_index_in_range:
  "advanceAnimation dt an \<noteq> Inl DivisionByZero
   \<and> (INT_MIN \<le> current an \<and> current an < INT_MAX \<longrightarrow>
        (\<exists>an'. advanceAnimation dt an = Inr an'
           \<and> (frameTime an \<le> f64 (timer an + dt) \<and> - 1 \<le> current an \<longrightarrow>
                0 \<le> current an' \<and> current an' < max 1 (frameCount an))))"
proof -
  have d: "max 1 (frameCount an) \<noteq> 0" "0 < max 1 (frameCount an)" by simp_all
  have 1: "advanceAnimation dt an \<noteq> Inl DivisionByZero"
    using d by (auto simp: advanceAnimation_def Let_def int_add_def int_rem_def split: sum.splits if_splits)
  have 2: "\<exists>an'. advanceAnimation dt an = Inr an'
           \<and> (frameTime an \<le> f64 (timer an + dt) \<and> - 1 \<le> current an \<longrightarrow>
                0 \<le> current an' \<and> current an' < max 1 (frameCount an))"
    if "INT_MIN \<le> current an" "current an < INT_MAX"
  proof (cases "frameTime an \<le> f64 (timer an + dt)")
    case False
    then show ?thesis by (simp add: advanceAnimation_def Let_def)
  next
    case True
    have a: "int_add (current an) 1 = Inr (current an + 1)"
      using that by (simp add: int_add_def)
    have r: "int_rem (current an + 1) (max 1 (frameCount an)) = Inr ((current an + 1) smod max 1 (frameCount an))"
      using d by (simp add: int_rem_def)
    have eq: "advanceAnimation dt an = Inr (an\<lparr>timer := 0, current := (current an + 1) smod max 1 (frameCount an)\<rparr>)"
      using True a r by (simp add: advanceAnimation_def Let_def)
    show ?thesis
      using eq smod_range [of "current an + 1" "max 1 (frameCount an)"] d by auto
  qed
  show ?thesis using 1 2 by blast
qed

theorem advance_index_in_range_witness:
  "INT_MIN \<le> current anLast \<and> current anLast < INT_MAX
   \<and> frameTime anLast \<le> f64 (timer anLast + 0) \<and> - 1 \<le> current anLast
   \<and> advanceAnimation 0 anLast \<noteq> Inl DivisionByZero
   \<and> advanceAnimation 0 anLast = Inr (anLast\<lparr>timer := 0, current := 0\<rparr>)"
proof -
  have e: "advanceAnimation 0 anLast = Inr (anLast\<lparr>timer := 0, current := 0\<rparr>)"
    by (simp add: advanceAnimation_def anLast_def f64_0 int_add_def int_rem_def INT_MAX_def INT_MIN_def signed_modulo_int_def)
  show ?thesis
    using advance_index_in_range [of 0 anLast] e by (simp add: anLast_def INT_MIN_def INT_MAX_def f64_0)
qed

lemma resolve_sprites_entities:
  "sprites (resolveCollision a b aa bb wld) = sprites wld"
  "entities (resolveCollision a b aa bb wld) = entities wld"
  by (simp_all add: resolveCollision_def Let_def updPhysics_fields updTransform_fields move_defs
      split: option.splits)

lemma collideWith_sprites_entities:
  "sprites (collideWith a aa bs wld) = sprites wld \<and> entities (collideWith a aa bs wld) = entities wld"
  by (induction bs arbitrary: wld) (simp_all add: resolve_sprites_entities split: option.splits)

lemma collidePairs_sprites_entities:
  "sprites (collidePairs ids wld) = sprites wld \<and> entities (collidePairs ids wld) = entities wld"
  by (induction ids arbitrary: wld) (simp_all add: collideWith_sprites_entities split: option.splits)

lemma collisionSolve_sprites_entities:
  "sprites (collisionSolve wld) = sprites wld" "entities (collisionSolve wld) = entities wld"
  by (simp_all add: collisionSolve_def collidePairs_sprites_entities)

lemma integrate_sprites_entities:
  "sprites (integrate dt ids wld) = sprites wld \<and> entities (integrate dt ids wld) = entities wld"
  by (induction ids arbitrary: wld) (simp_all split: option.splits)

lemma animate_other:
  "animate dt ids wld = Inr w' \<Longrightarrow> i \<notin> set ids \<Longrightarrow> sprites w' i = sprites wld i"
proof (induction ids arbitrary: wld)
  case Nil
  then show ?case by simp
next
  case (Cons j ids)
  show ?case
  proof (cases "sprites wld j")
    case None
    then show ?thesis using Cons by simp
  next
    case (Some sc)
    show ?thesis
    proof (cases sc)
      case (PlainSprite s)
      then show ?thesis using Cons Some by simp
    next
      case (AnimatedSprite s an)
      show ?thesis
      proof (cases "advanceAnimation dt an")
        case (Inl err)
        then show ?thesis using Cons Some AnimatedSprite by simp
      next
        case (Inr an')
        have "animate dt ids (wld\<lparr>sprites := (sprites wld)(j \<mapsto> SpriteComp.AnimatedSprite s an')\<rparr>) = Inr w'"
          using Cons.prems Some AnimatedSprite Inr by simp
        from Cons.IH [OF this] Cons.prems(2) show ?thesis by simp
      qed
    qed
  qed
qed

lemma animate_at:
  "animate dt ids wld = Inr w' \<Longrightarrow> distinct ids \<Longrightarrow> i \<in> set ids \<Longrightarrow>
     sprites wld i = Some (AnimatedSprite s an) \<Longrightarrow>
     \<exists>an'. advanceAnimation dt an = Inr an' \<and> sprites w' i = Some (AnimatedSprite s an')"
proof (induction ids arbitrary: wld)
  case Nil
  then show ?case by simp
next
  case (Cons j ids)
  show ?case
  proof (cases "j = i")
    case True
    obtain an' where a: "advanceAnimation dt an = Inr an'"
      using Cons.prems(1,4) True by (cases "advanceAnimation dt an") simp_all
    have r: "animate dt ids (wld\<lparr>sprites := (sprites wld)(i \<mapsto> AnimatedSprite s an')\<rparr>) = Inr w'"
      using Cons.prems(1,4) True a by simp
    have "i \<notin> set ids" using Cons.prems(2) True by simp
    from animate_other [OF r this] show ?thesis using a by simp
  next
    case False
    then have i: "i \<in> set ids" using Cons.prems(3) by simp
    have d: "distinct ids" using Cons.prems(2) by simp
    show ?thesis
    proof (cases "sprites wld j")
      case None
      then show ?thesis using Cons.IH [OF _ d i Cons.prems(4)] Cons.prems(1) by simp
    next
      case (Some sc)
      show ?thesis
      proof (cases sc)
        case (PlainSprite s')
        then show ?thesis using Cons.prems(1) Some by simp
      next
        case (AnimatedSprite s' anj)
        show ?thesis
        proof (cases "advanceAnimation dt anj")
          case (Inl err)
          then show ?thesis using Cons.prems(1) Some AnimatedSprite by simp
        next
          case (Inr anj')
          have r: "animate dt ids (wld\<lparr>sprites := (sprites wld)(j \<mapsto> SpriteComp.AnimatedSprite s' anj')\<rparr>) = Inr w'"
            using Cons.prems(1) Some AnimatedSprite Inr by simp
          have k: "sprites (wld\<lparr>sprites := (sprites wld)(j \<mapsto> SpriteComp.AnimatedSprite s' anj')\<rparr>) i
              = Some (SpriteComp.AnimatedSprite s an)"
            using False Cons.prems(4) by simp
          from Cons.IH [OF r d i k] show ?thesis .
        qed
      qed
    qed
  qed
qed

lemma advance_valid:
  assumes "advanceAnimation dt an = Inr an'" "1 \<le> frameCount an" "0 \<le> current an"
  shows "an' = (if frameTime an \<le> f64 (timer an + dt)
                then an\<lparr>timer := 0, current := (current an + 1) mod frameCount an\<rparr>
                else an\<lparr>timer := f64 (timer an + dt)\<rparr>)"
proof -
  have m: "max 1 (frameCount an) = frameCount an" using assms(2) by simp
  have s: "(current an + 1) smod frameCount an = (current an + 1) mod frameCount an"
    using assms(2,3) by (simp add: signed_modulo_int_def sgn_if)
  show ?thesis
    using assms(1) unfolding advanceAnimation_def Let_def m
    by (auto simp: int_add_def int_rem_def s split: if_splits sum.splits)
qed

lemma fixedUpdate_advances_animation:
  assumes "fixedUpdate sc dt e = Inr e'"
    and "w1 = runScripts sc dt (entities (world e)) (world e)"
    and "distinct (entities w1)" "i \<in> set (entities w1)"
    and "sprites w1 i = Some (AnimatedSprite s an)"
    and "1 \<le> frameCount an" "0 \<le> current an"
  shows "sprites (world e') i = Some (AnimatedSprite s
           (if frameTime an \<le> f64 (timer an + dt)
            then an\<lparr>timer := 0, current := (current an + 1) mod frameCount an\<rparr>
            else an\<lparr>timer := f64 (timer an + dt)\<rparr>))"
proof -
  define w3 where "w3 = collisionSolve (integrate dt (entities w1) w1)"
  have e3: "entities w3 = entities w1" and s3: "sprites w3 = sprites w1"
    by (simp_all add: w3_def collisionSolve_sprites_entities integrate_sprites_entities)
  obtain w4 where w4: "animate dt (entities w3) w3 = Inr w4" "world e' = w4"
    using assms(1) unfolding fixedUpdate_def Let_def assms(2) [symmetric] w3_def [symmetric]
    by (auto split: sum.splits)
  obtain an' where a: "advanceAnimation dt an = Inr an'" "sprites w4 i = Some (AnimatedSprite s an')"
    using animate_at [OF w4(1), of i s an] assms(3,4,5) e3 s3 by auto
  show ?thesis using a(2) advance_valid [OF a(1) assms(6,7)] w4(2) by simp
qed

lemma frameTime_val: "f32 (1 / 10) = 13421773 / 134217728"
  by code_simp

lemma tick_steps:
  "f64 fixedDt = 4803839602528529 / 288230376151711744"
  "f64 (4803839602528529 / 288230376151711744 + fixedDt) = 4803839602528529 / 144115188075855872"
  "f64 (4803839602528529 / 144115188075855872 + fixedDt) = 3602879701896397 / 72057594037927936"
  "f64 (3602879701896397 / 72057594037927936 + fixedDt) = 4803839602528529 / 72057594037927936"
  "f64 (4803839602528529 / 72057594037927936 + fixedDt) = 6004799503160661 / 72057594037927936"
  "f64 (6004799503160661 / 72057594037927936 + fixedDt) = 7205759403792793 / 72057594037927936"
  "f64 (7205759403792793 / 72057594037927936 + fixedDt) = 8406719304424925 / 72057594037927936"
  unfolding fixedDt_val by code_simp+

lemma tick_vals:
  "map tick [0..<8] = [0, 4803839602528529 / 288230376151711744,
     4803839602528529 / 144115188075855872, 3602879701896397 / 72057594037927936,
     4803839602528529 / 72057594037927936, 6004799503160661 / 72057594037927936,
     7205759403792793 / 72057594037927936, 8406719304424925 / 72057594037927936]"
  by (simp add: eval_nat_numeral tick_steps)

lemma tick_wait: "k < 6 \<Longrightarrow> tick (Suc k) < f32 (1 / 10)"
proof -
  assume k: "k < 6"
  have "\<forall>k<6. map tick [0..<8] ! Suc k < f32 (1 / 10)"
    unfolding tick_vals frameTime_val by (simp add: All_less_Suc eval_nat_numeral)
  moreover have "map tick [0..<8] ! Suc k = tick (Suc k)"
    using k by (simp del: tick.simps upt_Suc)
  ultimately show ?thesis using k by simp
qed

lemma tick_fire: "f32 (1 / 10) \<le> tick 7"
proof -
  have "f32 (1 / 10) \<le> map tick [0..<8] ! 7"
    unfolding tick_vals frameTime_val by (simp add: eval_nat_numeral)
  moreover have "map tick [0..<8] ! 7 = tick 7"
    by (simp del: tick.simps upt_Suc)
  ultimately show ?thesis by simp
qed

lemma advance_wait:
  "f64 (t + fixedDt) < f32 (1 / 10) \<Longrightarrow>
     advanceAnimation fixedDt (walk c t) = Inr (walk c (f64 (t + fixedDt)))"
  by (simp add: advanceAnimation_def walk_def Let_def)

lemma advance_fire:
  "f32 (1 / 10) \<le> f64 (t + fixedDt) \<Longrightarrow> 0 \<le> c \<Longrightarrow> c < 4 \<Longrightarrow>
     advanceAnimation fixedDt (walk c t) = Inr (walk ((c + 1) mod 4) 0)"
  by (simp add: advanceAnimation_def walk_def Let_def int_add_def int_rem_def INT_MAX_def INT_MIN_def
      signed_modulo_int_def sgn_if)

lemma fixedUpdate_anim:
  "advanceAnimation dt an = Inr an' \<Longrightarrow>
     fixedUpdate noScripts dt (animEngine an) = Inr (animEngine an')"
  by (simp add: fixedUpdate_def animEngine_def noScripts_def collisionSolve_def update_def Let_def)

lemma fixedUpdates_add:
  "fixedUpdates sc dt (m + n) e = (case fixedUpdates sc dt m e of
     Inl err \<Rightarrow> Inl err | Inr e' \<Rightarrow> fixedUpdates sc dt n e')"
  by (induction m arbitrary: e) (simp_all split: sum.splits)

lemma waiting_updates:
  "k \<le> 6 \<Longrightarrow> fixedUpdates noScripts fixedDt k (animEngine (walk c 0)) = Inr (animEngine (walk c (tick k)))"
proof (induction k)
  case 0
  then show ?case by simp
next
  case (Suc k)
  then have k: "k < 6" by simp
  have "fixedUpdates noScripts fixedDt (k + 1) (animEngine (walk c 0))
      = fixedUpdates noScripts fixedDt 1 (animEngine (walk c (tick k)))"
    using Suc by (simp only: fixedUpdates_add) simp
  also have "\<dots> = Inr (animEngine (walk c (tick (Suc k))))"
    using fixedUpdate_anim [OF advance_wait [of "tick k" c]] tick_wait [OF k] by simp
  finally show ?case by simp
qed

lemma seven_updates:
  assumes "0 \<le> c" "c < 4"
  shows "fixedUpdates noScripts fixedDt 7 (animEngine (walk c 0)) = Inr (animEngine (walk ((c + 1) mod 4) 0))"
proof -
  have f: "f32 (1 / 10) \<le> f64 (tick 6 + fixedDt)"
    using tick_fire by (simp add: eval_nat_numeral)
  have "fixedUpdates noScripts fixedDt (6 + 1) (animEngine (walk c 0))
      = fixedUpdates noScripts fixedDt 1 (animEngine (walk c (tick 6)))"
    using waiting_updates [of 6 c] by (simp only: fixedUpdates_add) simp
  also have "\<dots> = Inr (animEngine (walk ((c + 1) mod 4) 0))"
    using fixedUpdate_anim [OF advance_fire [OF f assms]] by simp
  finally show ?thesis by simp
qed

lemma twentyone_updates:
  assumes "0 \<le> c" "c < 4"
  shows "fixedUpdates noScripts fixedDt 21 (animEngine (walk c 0)) = Inr (animEngine (walk ((c + 3) mod 4) 0))"
proof -
  have r1: "0 \<le> (c + 1) mod 4" "(c + 1) mod 4 < 4" by simp_all
  have r2: "0 \<le> ((c + 1) mod 4 + 1) mod 4" "((c + 1) mod 4 + 1) mod 4 < 4" by simp_all
  have m: "(((c + 1) mod 4 + 1) mod 4 + 1) mod 4 = (c + 3) mod 4" by presburger
  have "fixedUpdates noScripts fixedDt (7 + (7 + 7)) (animEngine (walk c 0))
      = Inr (animEngine (walk ((((c + 1) mod 4 + 1) mod 4 + 1) mod 4) 0))"
    by (simp only: fixedUpdates_add seven_updates [OF assms] seven_updates [OF r1]
        seven_updates [OF r2] sum.case)
  then show ?thesis by (simp add: m)
qed

lemma advance_defined:
  assumes "INT_MIN \<le> current an" "current an < INT_MAX"
  shows "\<exists>an'. advanceAnimation dt an = Inr an'"
proof -
  have d: "max 1 (frameCount an) \<noteq> 0" by simp
  show ?thesis
    using assms d by (simp add: advanceAnimation_def Let_def int_add_def int_rem_def)
qed

lemma animate_plain_fails:
  "i \<in> set ids \<Longrightarrow> sprites wld i = Some (PlainSprite s) \<Longrightarrow> isl (animate dt ids wld)"
proof (induction ids arbitrary: wld)
  case Nil
  then show ?case by simp
next
  case (Cons j ids)
  show ?case
  proof (cases "j = i")
    case True
    then show ?thesis using Cons.prems by simp
  next
    case False
    then have i: "i \<in> set ids" using Cons.prems by simp
    show ?thesis
    proof (cases "sprites wld j")
      case None
      then show ?thesis using Cons.IH [OF i Cons.prems(2)] by simp
    next
      case (Some c)
      show ?thesis
      proof (cases c)
        case (PlainSprite s')
        then show ?thesis using Some by simp
      next
        case (AnimatedSprite s' an)
        show ?thesis
        proof (cases "advanceAnimation dt an")
          case (Inl err)
          then show ?thesis using Some AnimatedSprite by simp
        next
          case (Inr an')
          have "sprites (wld\<lparr>sprites := (sprites wld)(j \<mapsto> SpriteComp.AnimatedSprite s' an')\<rparr>) i
              = Some (PlainSprite s)"
            using False Cons.prems(2) by simp
          from Cons.IH [OF i this] show ?thesis using Some AnimatedSprite Inr by simp
        qed
      qed
    qed
  qed
qed

lemma animate_completes:
  "distinct ids \<Longrightarrow>
   \<forall>j\<in>set ids. \<forall>c. sprites wld j = Some c \<longrightarrow>
      (\<exists>s an. c = AnimatedSprite s an \<and> INT_MIN \<le> current an \<and> current an < INT_MAX) \<Longrightarrow>
   \<exists>w'. animate dt ids wld = Inr w'"
proof (induction ids arbitrary: wld)
  case Nil
  then show ?case by simp
next
  case (Cons j ids)
  have d: "distinct ids" "j \<notin> set ids" using Cons.prems(1) by simp_all
  show ?case
  proof (cases "sprites wld j")
    case None
    have "\<exists>w'. animate dt ids wld = Inr w'"
      using Cons.IH [OF d(1)] Cons.prems(2) by simp
    then show ?thesis using None by simp
  next
    case (Some c)
    then obtain s an where c: "c = AnimatedSprite s an" "INT_MIN \<le> current an" "current an < INT_MAX"
      using Cons.prems(2) by auto
    obtain an' where a: "advanceAnimation dt an = Inr an'"
      using advance_defined [OF c(2,3)] by blast
    define w1 where "w1 = wld\<lparr>sprites := (sprites wld)(j \<mapsto> SpriteComp.AnimatedSprite s an')\<rparr>"
    have "\<forall>k\<in>set ids. \<forall>c. sprites w1 k = Some c \<longrightarrow>
      (\<exists>s an. c = AnimatedSprite s an \<and> INT_MIN \<le> current an \<and> current an < INT_MAX)"
      using Cons.prems(2) d(2) by (auto simp: w1_def)
    from Cons.IH [OF d(1) this] obtain w' where "animate dt ids w1 = Inr w'" by blast
    then show ?thesis using Some c(1) a by (simp add: w1_def)
  qed
qed

lemma fixedUpdate_tile: "fixedUpdate noScripts fixedDt tileEngine = Inl BadDowncast"
  by (simp add: fixedUpdate_def tileEngine_def noScripts_def collisionSolve_def Let_def)

text \<open>
  C6. The claim: for every entity with an animated sprite each fixed update adds \<open>dt\<close> to the
  timer and, when the timer has reached \<^verbatim>\<open>frameTime\<close>, sets it to 0 and moves \<^verbatim>\<open>current\<close> on by
  one modulo the frame count; with four frames and \<^verbatim>\<open>frameTime = 0.1f\<close>, 21 fixed updates of
  1/60 s move the frame on by 3 modulo 4. The loop of line 351 casts every \<^verbatim>\<open>"sprite"\<close>
  component to \<^verbatim>\<open>AnimatedSprite\<close> without a check: with a tile's plain \<^verbatim>\<open>Sprite\<close> in the store
  the fixed update is undefined, whatever animated sprites the store holds besides. In a
  store without repeated ids where every sprite component is animated (and no index is at
  \<^verbatim>\<open>INT_MAX\<close>) the fixed update completes and every animation of at least one frame, at an
  index that is not negative, advances as the claim says from the state the scripts left;
  there the 21 updates move the frame on by exactly 3 modulo 4 (the timer fires at the
  updates 7, 14 and 21).
\<close>

theorem animation_loop_casts_every_sprite:
  "fixedUpdate noScripts fixedDt tileEngine = Inl BadDowncast
   \<and> (i \<in> set (entities (afterScripts sc dt e)) \<and> sprites (afterScripts sc dt e) i = Some (PlainSprite s)
        \<longrightarrow> isl (fixedUpdate sc dt e))
   \<and> (distinct (entities (afterScripts sc dt e))
        \<and> (\<forall>j\<in>set (entities (afterScripts sc dt e)). \<forall>c. sprites (afterScripts sc dt e) j = Some c \<longrightarrow>
              (\<exists>s an. c = AnimatedSprite s an \<and> INT_MIN \<le> current an \<and> current an < INT_MAX)) \<longrightarrow>
        (\<exists>e'. fixedUpdate sc dt e = Inr e'
           \<and> (\<forall>i s an. i \<in> set (entities (afterScripts sc dt e))
                 \<and> sprites (afterScripts sc dt e) i = Some (AnimatedSprite s an)
                 \<and> 1 \<le> frameCount an \<and> 0 \<le> current an \<longrightarrow>
                 sprites (world e') i = Some (AnimatedSprite s
                   (if frameTime an \<le> f64 (timer an + dt)
                    then an\<lparr>timer := 0, current := (current an + 1) mod frameCount an\<rparr>
                    else an\<lparr>timer := f64 (timer an + dt)\<rparr>)))))
   \<and> (0 \<le> c \<and> c < 4 \<longrightarrow>
        fixedUpdates noScripts fixedDt 21 (animEngine (walk c 0))
          = Inr (animEngine (walk ((c + 3) mod 4) 0)))"
proof -
  define w1 where "w1 = afterScripts sc dt e"
  define w3 where "w3 = collisionSolve (integrate dt (entities w1) w1)"
  have e3: "entities w3 = entities w1" and s3: "sprites w3 = sprites w1"
    by (simp_all add: w3_def collisionSolve_sprites_entities integrate_sprites_entities)
  have fu: "fixedUpdate sc dt e = (case animate dt (entities w3) w3 of
      Inl err \<Rightarrow> Inl err
    | Inr w4 \<Rightarrow> Inr (e\<lparr>world := w4, particles := update dt (particles e)\<rparr>))"
    by (simp add: fixedUpdate_def Let_def w3_def w1_def afterScripts_def)
  have 2: "isl (fixedUpdate sc dt e)"
    if "i \<in> set (entities w1) \<and> sprites w1 i = Some (PlainSprite s)"
  proof -
    have "isl (animate dt (entities w3) w3)"
      using animate_plain_fails [of i "entities w3" w3 s dt] that e3 s3 by simp
    then show ?thesis unfolding fu by (cases "animate dt (entities w3) w3") simp_all
  qed
  have 3: "\<exists>e'. fixedUpdate sc dt e = Inr e'
           \<and> (\<forall>i s an. i \<in> set (entities w1)
                 \<and> sprites w1 i = Some (AnimatedSprite s an)
                 \<and> 1 \<le> frameCount an \<and> 0 \<le> current an \<longrightarrow>
                 sprites (world e') i = Some (AnimatedSprite s
                   (if frameTime an \<le> f64 (timer an + dt)
                    then an\<lparr>timer := 0, current := (current an + 1) mod frameCount an\<rparr>
                    else an\<lparr>timer := f64 (timer an + dt)\<rparr>)))"
    if h: "distinct (entities w1)
        \<and> (\<forall>j\<in>set (entities w1). \<forall>c. sprites w1 j = Some c \<longrightarrow>
              (\<exists>s an. c = AnimatedSprite s an \<and> INT_MIN \<le> current an \<and> current an < INT_MAX))"
  proof -
    obtain w4 where w4: "animate dt (entities w3) w3 = Inr w4"
      using animate_completes [of "entities w3" w3 dt] h e3 s3 by auto
    define e' where "e' = e\<lparr>world := w4, particles := update dt (particles e)\<rparr>"
    have r: "fixedUpdate sc dt e = Inr e'" unfolding fu e'_def using w4 by simp
    have "sprites (world e') i = Some (AnimatedSprite s
                   (if frameTime an \<le> f64 (timer an + dt)
                    then an\<lparr>timer := 0, current := (current an + 1) mod frameCount an\<rparr>
                    else an\<lparr>timer := f64 (timer an + dt)\<rparr>))"
      if "i \<in> set (entities w1)" "sprites w1 i = Some (AnimatedSprite s an)"
        "1 \<le> frameCount an" "0 \<le> current an" for i s an
      using fixedUpdate_advances_animation [OF r _ _ that(1,2,3,4)] h
      by (simp add: w1_def afterScripts_def)
    then show ?thesis using r by blast
  qed
  show ?thesis
    using fixedUpdate_tile 2 3 twentyone_updates [of c] unfolding w1_def by blast
qed

theorem animation_loop_casts_every_sprite_witness:
  "fixedUpdate noScripts fixedDt tileEngine = Inl BadDowncast
   \<and> 1 \<in> set (entities (afterScripts noScripts fixedDt tileEngine))
   \<and> sprites (afterScripts noScripts fixedDt tileEngine) 1 = Some (PlainSprite tileSprite)
   \<and> sprites (afterScripts noScripts fixedDt tileEngine) 2 = Some (AnimatedSprite playerSprite (walk 0 0))
   \<and> isl (fixedUpdate noScripts fixedDt tileEngine)
   \<and> distinct (entities (afterScripts noScripts fixedDt (animEngine (walk 3 (tick 6)))))
   \<and> sprites (afterScripts noScripts fixedDt (animEngine (walk 3 (tick 6)))) 1
       = Some (AnimatedSprite playerSprite (walk 3 (tick 6)))
   \<and> fixedUpdate noScripts fixedDt (animEngine (walk 3 (tick 6))) = Inr (animEngine (walk 0 0))
   \<and> sprites (world (animEngine (walk 0 0))) 1 = Some (AnimatedSprite playerSprite (walk 0 0))
   \<and> fixedUpdates noScripts fixedDt 21 (animEngine (walk 0 0)) = Inr (animEngine (walk 3 0))
   \<and> fixedUpdates noScripts fixedDt 21 (animEngine (walk 2 0)) = Inr (animEngine (walk 1 0))"
proof -
  have tw: "afterScripts noScripts fixedDt tileEngine = world tileEngine"
    by (simp add: afterScripts_def tileEngine_def noScripts_def)
  have t: "1 \<in> set (entities (afterScripts noScripts fixedDt tileEngine))"
    "sprites (afterScripts noScripts fixedDt tileEngine) 1 = Some (PlainSprite tileSprite)"
    "sprites (afterScripts noScripts fixedDt tileEngine) 2 = Some (AnimatedSprite playerSprite (walk 0 0))"
    unfolding tw by (simp_all add: tileEngine_def)
  note t1 = animation_loop_casts_every_sprite [of 1 noScripts fixedDt tileEngine tileSprite 0]
  have b: "fixedUpdate noScripts fixedDt tileEngine = Inl BadDowncast" using t1 by blast
  have i: "isl (fixedUpdate noScripts fixedDt tileEngine)" using t1 t by blast
  have aw: "afterScripts noScripts fixedDt (animEngine (walk 3 (tick 6))) = world (animEngine (walk 3 (tick 6)))"
    by (simp add: afterScripts_def animEngine_def noScripts_def)
  have a: "distinct (entities (afterScripts noScripts fixedDt (animEngine (walk 3 (tick 6)))))"
    "sprites (afterScripts noScripts fixedDt (animEngine (walk 3 (tick 6)))) 1
       = Some (AnimatedSprite playerSprite (walk 3 (tick 6)))"
    "1 \<in> set (entities (afterScripts noScripts fixedDt (animEngine (walk 3 (tick 6)))))"
    unfolding aw by (simp_all add: animEngine_def)
  have ok: "\<forall>j\<in>set (entities (afterScripts noScripts fixedDt (animEngine (walk 3 (tick 6))))).
      \<forall>c. sprites (afterScripts noScripts fixedDt (animEngine (walk 3 (tick 6)))) j = Some c \<longrightarrow>
        (\<exists>s an. c = AnimatedSprite s an \<and> INT_MIN \<le> current an \<and> current an < INT_MAX)"
    unfolding aw by (simp add: animEngine_def walk_def INT_MIN_def INT_MAX_def)
  have f: "f32 (1 / 10) \<le> f64 (tick 6 + fixedDt)"
    using tick_fire by (simp add: eval_nat_numeral)
  have h: "1 \<le> frameCount (walk 3 (tick 6))" "0 \<le> current (walk 3 (tick 6))"
    "frameTime (walk 3 (tick 6)) \<le> f64 (timer (walk 3 (tick 6)) + fixedDt)"
    using f by (simp_all add: walk_def)
  note t2 = animation_loop_casts_every_sprite [of 1 noScripts fixedDt "animEngine (walk 3 (tick 6))" tileSprite 2]
  from t2 a(1) ok obtain e' where e': "fixedUpdate noScripts fixedDt (animEngine (walk 3 (tick 6))) = Inr e'"
    "sprites (world e') 1 = Some (AnimatedSprite playerSprite
       (if frameTime (walk 3 (tick 6)) \<le> f64 (timer (walk 3 (tick 6)) + fixedDt)
        then (walk 3 (tick 6))\<lparr>timer := 0,
          current := (current (walk 3 (tick 6)) + 1) mod frameCount (walk 3 (tick 6))\<rparr>
        else (walk 3 (tick 6))\<lparr>timer := f64 (timer (walk 3 (tick 6)) + fixedDt)\<rparr>))"
    using a(2,3) h(1,2) by blast
  have sp: "sprites (world e') 1 = Some (AnimatedSprite playerSprite (walk 0 0))"
    using e'(2) unfolding if_P [OF h(3)] by (simp add: walk_def)
  have u: "fixedUpdate noScripts fixedDt (animEngine (walk 3 (tick 6))) = Inr (animEngine (walk 0 0))"
    using fixedUpdate_anim [OF advance_fire [OF f, of 3]] by simp
  have w: "e' = animEngine (walk 0 0)" using e'(1) u by simp
  have sp0: "sprites (world (animEngine (walk 0 0))) 1 = Some (AnimatedSprite playerSprite (walk 0 0))"
    using sp unfolding w .
  have c2: "fixedUpdates noScripts fixedDt 21 (animEngine (walk 0 0)) = Inr (animEngine (walk 3 0))"
    using t1 by simp
  have c3: "fixedUpdates noScripts fixedDt 21 (animEngine (walk 2 0)) = Inr (animEngine (walk 1 0))"
    using t2 by simp
  show ?thesis using b t i a(1,2) u sp0 c2 c3 by blast
qed

section \<open>The frame loop\<close>

lemma accAfter_shift: "accAfter (Suc n) a = accAfter n (f64 (a - fixedDt))"
  by (induction n) simp_all

lemma fixedLoop_unroll:
  "(\<forall>k<n. fixedDt \<le> accAfter k a) \<Longrightarrow> \<not> fixedDt \<le> accAfter n a \<Longrightarrow>
     fixedLoop sc a e = Some (case fixedUpdates sc fixedDt n e of
        Inl err \<Rightarrow> Inl err | Inr e' \<Rightarrow> Inr (accAfter n a, e'))"
proof (induction n arbitrary: a e)
  case 0
  then show ?case by (subst fixedLoop.simps) simp
next
  case (Suc n)
  have ge: "fixedDt \<le> a" using Suc.prems(1) by (metis accAfter.simps(1) zero_less_Suc)
  show ?case
  proof (cases "fixedUpdate sc fixedDt e")
    case (Inl err)
    then show ?thesis using ge by (subst fixedLoop.simps) simp
  next
    case (Inr e1)
    have 1: "\<forall>k<n. fixedDt \<le> accAfter k (f64 (a - fixedDt))"
      using Suc.prems(1) by (metis accAfter_shift Suc_less_eq)
    have 2: "\<not> fixedDt \<le> accAfter n (f64 (a - fixedDt))"
      using Suc.prems(2) by (metis accAfter_shift)
    show ?thesis
      using Suc.IH [OF 1 2, of e1] ge Inr
      by (subst fixedLoop.simps) (simp add: accAfter_shift del: accAfter.simps cong: sum.case_cong)
  qed
qed

lemma accAfter_bound:
  assumes "a \<le> 1 / 4" "\<forall>k<j. fixedDt \<le> accAfter k a"
  shows "accAfter j a \<le> 1 / 4 - of_nat j * fixedDt + of_nat j / 2 ^ 56"
  using assms(2)
proof (induction j)
  case 0
  then show ?case using assms(1) by simp
next
  case (Suc j)
  have ih: "accAfter j a \<le> 1 / 4 - of_nat j * fixedDt + of_nat j / 2 ^ 56"
    using Suc by simp
  have ge: "fixedDt \<le> accAfter j a" using Suc.prems by simp
  have j0: "(0 :: rat) \<le> of_nat j" by simp
  have up: "accAfter j a \<le> 1 / 4"
  proof -
    have "of_nat j * (4803839602528529 / 288230376151711744 :: rat) \<ge> of_nat j / 2 ^ 56"
      using j0 by (simp add: field_simps)
    then show ?thesis using ih by (simp add: fixedDt_val)
  qed
  have x: "0 \<le> accAfter j a - fixedDt" "accAfter j a - fixedDt < 1 / 4"
    using ge up by (simp_all add: fixedDt_val)
  have "accAfter (Suc j) a \<le> accAfter j a - fixedDt + 1 / 2 ^ 56"
    using f64_upper_quarter [OF x] by simp
  also have "\<dots> \<le> 1 / 4 - of_nat (Suc j) * fixedDt + of_nat (Suc j) / 2 ^ 56"
    using ih by (simp add: field_simps)
  finally show ?case .
qed

lemma loop_count_bounded:
  assumes "a \<le> 1 / 4"
  shows "\<exists>n\<le>15. (\<forall>k<n. fixedDt \<le> accAfter k a) \<and> \<not> fixedDt \<le> accAfter n a"
proof -
  have ex: "\<exists>n\<le>15. \<not> fixedDt \<le> accAfter n a"
  proof (rule ccontr)
    assume "\<not> ?thesis"
    then have all: "\<forall>k\<le>15. fixedDt \<le> accAfter k a" by blast
    then have "\<forall>k<15. fixedDt \<le> accAfter k a" by simp
    from accAfter_bound [OF assms this]
    have "accAfter 15 a \<le> 1 / 4 - 15 * fixedDt + 15 / 2 ^ 56" by simp
    also have "\<dots> < fixedDt" by (simp add: fixedDt_val)
    finally show False using all by auto
  qed
  define n where "n = (LEAST n. \<not> fixedDt \<le> accAfter n a)"
  from ex obtain m where m: "m \<le> 15" "\<not> fixedDt \<le> accAfter m a" by blast
  have 1: "\<not> fixedDt \<le> accAfter n a" unfolding n_def using m(2) by (rule LeastI)
  have 2: "n \<le> m" unfolding n_def using m(2) by (rule Least_le)
  have 3: "\<forall>k<n. fixedDt \<le> accAfter k a"
    unfolding n_def using not_less_Least by blast
  show ?thesis using 1 2 3 m(1) by (intro exI [of _ n]) simp
qed




lemma clampAccum_le: "clampAccum x \<le> 1 / 4"
  by (simp add: clampAccum_def maxAccum_def)

lemma frame_unroll:
  assumes "\<forall>k<n. fixedDt \<le> accAfter k (clampAccum (f64 (a + elapsed)))"
    "\<not> fixedDt \<le> accAfter n (clampAccum (f64 (a + elapsed)))"
  shows "frame sc elapsed (a, e) = Some (case fixedUpdates sc fixedDt n e of
           Inl err \<Rightarrow> Inl err
         | Inr e' \<Rightarrow> Inr (accAfter n (clampAccum (f64 (a + elapsed))), render e'))"
  unfolding frame_def Let_def fst_conv snd_conv fixedLoop_unroll [OF assms]
  by (simp split: sum.splits)





section \<open>Camera\<close>

lemma trackTarget_first:
  assumes "\<forall>j\<in>set pre. physics wld j = None \<or> transforms wld j = None"
    "physics wld i = Some p" "transforms wld i = Some t"
  shows "trackTarget sw sh (pre @ i # post) wld =
    Some (f32 (tr_x t - f32 (f32 (of_int sw) / 2)), f32 (tr_y t - f32 (f32 (of_int sh) / 2)))"
  using assms by (induction pre) (auto split: option.splits)

lemma trackTarget_none:
  "\<forall>j\<in>set ids. physics wld j = None \<or> transforms wld j = None \<Longrightarrow> trackTarget sw sh ids wld = None"
  by (induction ids) (auto split: option.splits)

lemma fixedUpdate_cam:
  "fixedUpdate sc dt e = Inr e' \<Longrightarrow> camX e' = camX e \<and> camY e' = camY e"
  by (auto simp: fixedUpdate_def Let_def split: sum.splits)

lemma fixedUpdates_cam:
  "fixedUpdates sc dt n e = Inr e' \<Longrightarrow> camX e' = camX e \<and> camY e' = camY e"
proof (induction n arbitrary: e)
  case 0
  then show ?case by simp
next
  case (Suc n)
  then obtain e1 where e1: "fixedUpdate sc dt e = Inr e1" "fixedUpdates sc dt n e1 = Inr e'"
    by (auto split: sum.splits)
  show ?case using Suc.IH [OF e1(2)] fixedUpdate_cam [OF e1(1)] by simp
qed

lemma camEngine_target:
  "trackTarget (screenW camEngine) (screenH camEngine) (entities (world camEngine)) (world camEngine)
     = Some (100, 100)"
  by code_simp

lemma camEngine_camera:
  "camX (computeCamera camEngine) = 12 \<and> camY (computeCamera camEngine) = 12"
  by code_simp

lemma camEngine_update:
  "map_sum id camX (fixedUpdate noScripts fixedDt camEngine) = Inr 0
   \<and> map_sum id camY (fixedUpdate noScripts fixedDt camEngine) = Inr 0"
  by code_simp

lemma frame_idle:
  "frame sc 0 (0, e) = Some (Inr (0, computeCamera e))"
proof -
  have c: "clampAccum (f64 (0 + 0)) = 0" by (simp add: f64_0 clampAccum_def maxAccum_def)
  have "\<not> fixedDt \<le> accAfter 0 (clampAccum (f64 (0 + 0)))"
    unfolding c by (simp add: fixedDt_val)
  from frame_unroll [OF _ this, of sc e] show ?thesis
    unfolding c by (simp add: render_def)
qed

text \<open>
  C4, the claim as stated fails. With the camera at (0, 0) and the target at (100, 100), one
  fixed update leaves the camera at (0, 0), not at (12, 12); and a frame that runs no fixed
  update at all moves the camera to (12, 12).
\<close>

theorem camera_moves_per_render_not_per_update:
  "trackTarget (screenW camEngine) (screenH camEngine) (entities (world camEngine)) (world camEngine)
     = Some (100, 100)
   \<and> camX camEngine = 0 \<and> camY camEngine = 0
   \<and> map_sum id camX (fixedUpdate noScripts fixedDt camEngine) = Inr 0
   \<and> map_sum id camY (fixedUpdate noScripts fixedDt camEngine) = Inr 0
   \<and> frame noScripts 0 (0, camEngine) = Some (Inr (0, computeCamera camEngine))
   \<and> camX (computeCamera camEngine) = 12 \<and> camY (computeCamera camEngine) = 12"
  using camEngine_target camEngine_camera camEngine_update frame_idle [of noScripts camEngine]
  by (simp add: camEngine_def)

text \<open>
  C4 (as amended). The camera is smoothed once per rendered frame: \<^verbatim>\<open>computeCamera\<close> is
  called by \<^verbatim>\<open>render\<close>, after the fixed updates of the frame (none to fifteen), and a fixed
  update leaves the camera where it is. \<^verbatim>\<open>computeCamera\<close> does
  \<^verbatim>\<open>cam += (target - cam) * 0.12f\<close> with the target the position of the first entity, in the
  order of the store, that has physics and transform, minus half the size of the window;
  without such an entity the engine is unchanged. From the camera at (0, 0) and the target
  at (100, 100) one call yields (12, 12).
\<close>

theorem camera_smoothed_once_per_frame:
  "(entities (world e) = pre @ i # post
      \<and> (\<forall>j\<in>set pre. physics (world e) j = None \<or> transforms (world e) j = None)
      \<and> physics (world e) i = Some p \<and> transforms (world e) i = Some t \<longrightarrow>
        camX (computeCamera e) =
          f32 (camX e + f32 (f32 (f32 (tr_x t - f32 (f32 (of_int (screenW e)) / 2)) - camX e) * f32 (12 / 100)))
        \<and> camY (computeCamera e) =
          f32 (camY e + f32 (f32 (f32 (tr_y t - f32 (f32 (of_int (screenH e)) / 2)) - camY e) * f32 (12 / 100))))
   \<and> ((\<forall>j\<in>set (entities (world e)). physics (world e) j = None \<or> transforms (world e) j = None) \<longrightarrow>
        computeCamera e = e)
   \<and> (fixedUpdate sc dt e = Inr e' \<longrightarrow> camX e' = camX e \<and> camY e' = camY e)
   \<and> (frame sc elapsed (a, e) = Some (Inr (a', e'')) \<longrightarrow>
        (\<exists>n e1. n \<le> 15 \<and> fixedUpdates sc fixedDt n e = Inr e1
           \<and> camX e1 = camX e \<and> camY e1 = camY e \<and> e'' = computeCamera e1))
   \<and> camX (computeCamera camEngine) = 12 \<and> camY (computeCamera camEngine) = 12"
proof -
  have 1: "camX (computeCamera e) =
          f32 (camX e + f32 (f32 (f32 (tr_x t - f32 (f32 (of_int (screenW e)) / 2)) - camX e) * f32 (12 / 100)))
        \<and> camY (computeCamera e) =
          f32 (camY e + f32 (f32 (f32 (tr_y t - f32 (f32 (of_int (screenH e)) / 2)) - camY e) * f32 (12 / 100)))"
    if "entities (world e) = pre @ i # post"
      "\<forall>j\<in>set pre. physics (world e) j = None \<or> transforms (world e) j = None"
      "physics (world e) i = Some p" "transforms (world e) i = Some t"
    using trackTarget_first [OF that(2,3,4), of "screenW e" "screenH e" post]
    by (simp add: computeCamera_def that(1))
  have 2: "computeCamera e = e"
    if "\<forall>j\<in>set (entities (world e)). physics (world e) j = None \<or> transforms (world e) j = None"
    using trackTarget_none [OF that] by (simp add: computeCamera_def)
  have 3: "camX e' = camX e \<and> camY e' = camY e" if "fixedUpdate sc dt e = Inr e'"
    using that by (rule fixedUpdate_cam)
  have 4: "\<exists>n e1. n \<le> 15 \<and> fixedUpdates sc fixedDt n e = Inr e1
           \<and> camX e1 = camX e \<and> camY e1 = camY e \<and> e'' = computeCamera e1"
    if f: "frame sc elapsed (a, e) = Some (Inr (a', e''))"
  proof -
    obtain n where n: "n \<le> 15" "\<forall>k<n. fixedDt \<le> accAfter k (clampAccum (f64 (a + elapsed)))"
      "\<not> fixedDt \<le> accAfter n (clampAccum (f64 (a + elapsed)))"
      using loop_count_bounded [OF clampAccum_le] by blast
    from frame_unroll [OF n(2,3), of sc e] f
    obtain e1 where e1: "fixedUpdates sc fixedDt n e = Inr e1" "e'' = render e1"
      by (auto split: sum.splits)
    show ?thesis
      using n(1) e1 fixedUpdates_cam [OF e1(1)] by (auto simp: render_def)
  qed
  show ?thesis using 1 2 3 4 camEngine_camera by blast
qed

theorem camera_smoothed_once_per_frame_witness:
  "entities (world camEngine) = [] @ 1 # []
   \<and> physics (world camEngine) 1 = Some moving
   \<and> transforms (world camEngine) 1 = Some (posAt 740 460)
   \<and> camX (computeCamera camEngine) = 12 \<and> camY (computeCamera camEngine) = 12
   \<and> entities (world emptyEngine) = []
   \<and> computeCamera emptyEngine = emptyEngine
   \<and> fixedUpdate noScripts fixedDt camEngine = Inr (projr (fixedUpdate noScripts fixedDt camEngine))
   \<and> camX (projr (fixedUpdate noScripts fixedDt camEngine)) = 0
   \<and> camY (projr (fixedUpdate noScripts fixedDt camEngine)) = 0
   \<and> frame noScripts 0 (0, camEngine) = Some (Inr (0, computeCamera camEngine))
   \<and> fixedUpdates noScripts fixedDt 0 camEngine = Inr camEngine"
proof -
  have h: "entities (world camEngine) = [] @ 1 # []" "physics (world camEngine) 1 = Some moving"
    "transforms (world camEngine) 1 = Some (posAt 740 460)" "camX camEngine = 0" "camY camEngine = 0"
    by (simp_all add: camEngine_def)
  have e: "entities (world emptyEngine) = []" by (simp add: emptyEngine_def)
  have u: "fixedUpdate noScripts fixedDt camEngine = Inr (projr (fixedUpdate noScripts fixedDt camEngine))"
    using camEngine_update by (cases "fixedUpdate noScripts fixedDt camEngine") simp_all
  note f = frame_idle [of noScripts camEngine]
  show ?thesis
    using camera_smoothed_once_per_frame
        [of camEngine "[]" 1 "[]" moving "posAt 740 460" noScripts fixedDt
          "projr (fixedUpdate noScripts fixedDt camEngine)" 0 0 0 "computeCamera camEngine"]
      camera_smoothed_once_per_frame [of emptyEngine]
      h e u f
    by simp
qed

end
